theory Spec2Isabelle
  imports Complex_Main "HOL-Library.Log_Nat"
begin

section \<open>IEEE 754 binary64 values\<close>

text \<open>
  Every number of \<^verbatim>\<open>examples/simulation-closed-kinematic-chains.py\<close> is a Python
  \<^verbatim>\<open>float\<close> or an entry of a numpy \<^verbatim>\<open>float64\<close> array. A finite double is
  modelled by the rational it denotes, next to the two infinities and NaN. The sign of zero is
  not modelled: the script neither divides by a zero nor inspects a sign bit, and
  \<^verbatim>\<open>-0.0\<close> and \<^verbatim>\<open>0.0\<close> compare equal.
\<close>

datatype double = Fin rat | PInf | NInf | NaN

text \<open>\<open>ilog2 x\<close> is the binary exponent of a non-zero \<open>x\<close>: \<open>2 powi ilog2 x \<le> \<bar>x\<bar> < 2 powi (ilog2 x + 1)\<close>.\<close>

definition ilog2 :: "rat \<Rightarrow> int" where
  "ilog2 x = (let (a, b) = quotient_of \<bar>x\<bar>;
                  d = bitlen a - bitlen b
              in if 2 powi d \<le> \<bar>x\<bar> then d else d - 1)"

definition round_half_even :: "rat \<Rightarrow> int" where
  "round_half_even x = (let f = \<lfloor>x\<rfloor>; d = x - of_int f
     in if d < 1 / 2 then f else if 1 / 2 < d then f + 1 else if even f then f else f + 1)"

text \<open>
  The spacing of the doubles around \<open>x\<close>: 53 significant bits in the normal range, the fixed
  spacing \<open>2 powi (- 1074)\<close> in the subnormal range.
\<close>

definition quantum :: "rat \<Rightarrow> rat" where
  "quantum x = 2 powi (max (ilog2 x) (- 1022) - 52)"

text \<open>Round to nearest, ties to even; a result beyond the largest finite double overflows.\<close>

definition round_double :: "rat \<Rightarrow> double" where
  "round_double x = (if x = 0 then Fin 0 else
     let y = of_int (round_half_even (x / quantum x)) * quantum x
     in if 2 powi 1024 \<le> \<bar>y\<bar> then (if 0 < x then PInf else NInf) else Fin y)"

definition is_double :: "rat \<Rightarrow> bool" where
  "is_double x = (round_double x = Fin x)"

fun finite_double :: "double \<Rightarrow> bool" where
  "finite_double (Fin x) = is_double x"
| "finite_double _ = False"

fun fneg :: "double \<Rightarrow> double" where
  "fneg (Fin a) = Fin (- a)"
| "fneg PInf = NInf"
| "fneg NInf = PInf"
| "fneg NaN = NaN"

fun fabs :: "double \<Rightarrow> double" where
  "fabs (Fin a) = Fin \<bar>a\<bar>"
| "fabs PInf = PInf"
| "fabs NInf = PInf"
| "fabs NaN = NaN"

fun fadd :: "double \<Rightarrow> double \<Rightarrow> double" where
  "fadd (Fin a) (Fin b) = round_double (a + b)"
| "fadd NaN _ = NaN"
| "fadd _ NaN = NaN"
| "fadd PInf NInf = NaN"
| "fadd NInf PInf = NaN"
| "fadd PInf _ = PInf"
| "fadd _ PInf = PInf"
| "fadd NInf _ = NInf"
| "fadd _ NInf = NInf"

definition fsub :: "double \<Rightarrow> double \<Rightarrow> double" where
  "fsub a b = fadd a (fneg b)"

fun fmul :: "double \<Rightarrow> double \<Rightarrow> double" where
  "fmul (Fin a) (Fin b) = round_double (a * b)"
| "fmul NaN _ = NaN"
| "fmul _ NaN = NaN"
| "fmul (Fin a) PInf = (if a = 0 then NaN else if 0 < a then PInf else NInf)"
| "fmul (Fin a) NInf = (if a = 0 then NaN else if 0 < a then NInf else PInf)"
| "fmul PInf (Fin b) = (if b = 0 then NaN else if 0 < b then PInf else NInf)"
| "fmul NInf (Fin b) = (if b = 0 then NaN else if 0 < b then NInf else PInf)"
| "fmul PInf PInf = PInf"
| "fmul NInf NInf = PInf"
| "fmul PInf NInf = NInf"
| "fmul NInf PInf = NInf"

text \<open>numpy's array division: a zero divisor gives an infinity or NaN (and a warning).\<close>

fun fdiv :: "double \<Rightarrow> double \<Rightarrow> double" where
  "fdiv (Fin a) (Fin b) =
     (if b = 0 then (if a = 0 then NaN else if 0 < a then PInf else NInf)
      else round_double (a / b))"
| "fdiv NaN _ = NaN"
| "fdiv _ NaN = NaN"
| "fdiv (Fin a) _ = Fin 0"
| "fdiv PInf (Fin b) = (if 0 \<le> b then PInf else NInf)"
| "fdiv NInf (Fin b) = (if 0 \<le> b then NInf else PInf)"
| "fdiv _ _ = NaN"

fun flt :: "double \<Rightarrow> double \<Rightarrow> bool" where
  "flt (Fin a) (Fin b) = (a < b)"
| "flt NaN _ = False"
| "flt _ NaN = False"
| "flt _ NInf = False"
| "flt PInf _ = False"
| "flt _ _ = True"

fun fle :: "double \<Rightarrow> double \<Rightarrow> bool" where
  "fle (Fin a) (Fin b) = (a \<le> b)"
| "fle NaN _ = False"
| "fle _ NaN = False"
| "fle NInf _ = True"
| "fle _ PInf = True"
| "fle _ _ = False"

text \<open>C's \<^verbatim>\<open>fmod\<close>: the remainder of the quotient truncated towards zero; it is exact.\<close>

definition trunc :: "rat \<Rightarrow> int" where
  "trunc x = (if 0 \<le> x then \<lfloor>x\<rfloor> else \<lceil>x\<rceil>)"

fun fmod :: "double \<Rightarrow> double \<Rightarrow> double" where
  "fmod (Fin a) (Fin b) = (if b = 0 then NaN else Fin (a - b * of_int (trunc (a / b))))"
| "fmod NaN _ = NaN"
| "fmod _ NaN = NaN"
| "fmod (Fin a) _ = Fin a"
| "fmod _ _ = NaN"

text \<open>
  numpy's \<^verbatim>\<open>%\<close> on \<^verbatim>\<open>float64\<close> (\<^verbatim>\<open>npy_divmod\<close>): \<^verbatim>\<open>fmod\<close>, then one
  addition of the divisor when the signs of remainder and divisor differ.
\<close>

definition np_remainder :: "double \<Rightarrow> double \<Rightarrow> double" where
  "np_remainder a b =
     (let m = fmod a b in
      if b = Fin 0 then m
      else if m = Fin 0 then Fin 0
      else if flt b (Fin 0) \<noteq> flt m (Fin 0) then fadd m b
      else m)"

text \<open>A Python float literal denotes the double nearest to its decimal value.\<close>

definition py_float :: "rat \<Rightarrow> double" where
  "py_float r = round_double r"

text \<open>\<^verbatim>\<open>np.pi\<close>, the double \<^verbatim>\<open>0x400921FB54442D18\<close>.\<close>

definition np_pi_rat :: rat where
  "np_pi_rat = 884279719003555 / 281474976710656"

definition np_pi :: double where
  "np_pi = Fin np_pi_rat"


section \<open>numpy arrays\<close>

text \<open>
  One-dimensional \<^verbatim>\<open>float64\<close> arrays are lists of doubles, matrices lists of rows. An
  elementwise operation on two arrays broadcasts an operand of length one and raises
  \<^verbatim>\<open>ValueError\<close> on any other mismatch of shapes; an in-place operation keeps the shape
  of its target.
\<close>

type_synonym ndarray = "double list"
type_synonym matrix = "double list list"

datatype error = ValueError

definition ebind :: "error + 'a \<Rightarrow> ('a \<Rightarrow> error + 'b) \<Rightarrow> error + 'b" where
  "ebind m f = (case m of Inl e \<Rightarrow> Inl e | Inr x \<Rightarrow> f x)"

definition np_binop :: "(double \<Rightarrow> double \<Rightarrow> double) \<Rightarrow> ndarray \<Rightarrow> ndarray \<Rightarrow> error + ndarray" where
  "np_binop f xs ys =
     (if length xs = length ys then Inr (map2 f xs ys)
      else if length xs = 1 then Inr (map (f (hd xs)) ys)
      else if length ys = 1 then Inr (map (\<lambda>x. f x (hd ys)) xs)
      else Inl ValueError)"

definition np_inplace :: "(double \<Rightarrow> double \<Rightarrow> double) \<Rightarrow> ndarray \<Rightarrow> ndarray \<Rightarrow> error + ndarray" where
  "np_inplace f ys xs =
     (if length xs = length ys then Inr (map2 f ys xs)
      else if length xs = 1 then Inr (map (\<lambda>y. f y (hd xs)) ys)
      else Inl ValueError)"

definition np_neg :: "ndarray \<Rightarrow> ndarray" where
  "np_neg xs = map fneg xs"

definition np_mul_scalar :: "ndarray \<Rightarrow> double \<Rightarrow> ndarray" where
  "np_mul_scalar xs c = map (\<lambda>x. fmul x c) xs"

definition np_scalar_mul :: "double \<Rightarrow> ndarray \<Rightarrow> ndarray" where
  "np_scalar_mul c xs = map (\<lambda>x. fmul c x) xs"

definition np_div_scalar :: "ndarray \<Rightarrow> double \<Rightarrow> ndarray" where
  "np_div_scalar xs c = map (\<lambda>x. fdiv x c) xs"

definition np_ones :: "nat \<Rightarrow> ndarray" where
  "np_ones n = replicate n (Fin 1)"

definition np_zeros :: "nat \<Rightarrow> ndarray" where
  "np_zeros n = replicate n (Fin 0)"

definition np_eye :: "nat \<Rightarrow> matrix" where
  "np_eye n = map (\<lambda>i. map (\<lambda>j. if i = j then Fin 1 else Fin 0) [0..<n]) [0..<n]"

text \<open>\<^verbatim>\<open>max\<close> as numpy reduces with it: a NaN operand gives NaN.\<close>

definition np_maximum :: "double \<Rightarrow> double \<Rightarrow> double" where
  "np_maximum a b = (if a = NaN \<or> b = NaN then NaN else if flt a b then b else a)"

text \<open>
  \<^verbatim>\<open>np.linalg.norm(x, np.inf)\<close> is \<^verbatim>\<open>abs(x).max()\<close>; the maximum of an empty array
  raises \<^verbatim>\<open>ValueError\<close>.
\<close>

definition np_norm_inf :: "ndarray \<Rightarrow> error + double" where
  "np_norm_inf xs =
     (case map fabs xs of [] \<Rightarrow> Inl ValueError | a # as \<Rightarrow> Inr (foldl np_maximum a as))"

text \<open>\<^verbatim>\<open>(q[:] + np.pi) % np.pi - np.pi\<close> on one entry of \<^verbatim>\<open>q\<close>.\<close>

definition wrap_angle :: "double \<Rightarrow> double" where
  "wrap_angle x = fsub (np_remainder (fadd x np_pi) np_pi) np_pi"

section \<open>The values handed to pinocchio, hpp-fcl and the viewer\<close>

definition XAxis :: ndarray where
  "XAxis = [Fin 1, Fin 0, Fin 0]"

definition ZAxis :: ndarray where
  "ZAxis = [Fin 0, Fin 0, Fin 1]"

text \<open>
  A rotation is either the identity or the matrix of
  \<^verbatim>\<open>pin.Quaternion.FromTwoVectors(a, b)\<close>, which the library computes and the script only
  passes on.
\<close>

datatype rotation_matrix = Identity3 | FromTwoVectors ndarray ndarray

record SE3 =
  rotation :: rotation_matrix
  translation :: ndarray

definition SE3_Identity :: SE3 where
  "SE3_Identity = \<lparr>rotation = Identity3, translation = np_zeros 3\<rparr>"

datatype shape = Capsule double double | Box double double double

datatype inertia = FromBox double double double double

datatype joint_model = JointModelRX | JointModelRY | JointModelRZ
  | JointModelPX | JointModelPY | JointModelPZ | JointModelFreeFlyer

record geometry_object =
  go_name :: string
  go_parent_joint :: nat
  go_geometry :: shape
  go_placement :: SE3
  go_meshColor :: ndarray

datatype contact_type = CONTACT_3D | CONTACT_6D | CONTACT_UNDEFINED

datatype reference_frame = WORLD | LOCAL | LOCAL_WORLD_ALIGNED

record rigid_contact_model =
  cm_type :: contact_type
  cm_joint1_id :: nat
  cm_joint1_placement :: SE3
  cm_joint2_id :: nat
  cm_joint2_placement :: SE3
  cm_reference_frame :: reference_frame

section \<open>Library calls and the library\<close>

text \<open>
  The script is glue code: what it does is the sequence of calls it makes into pinocchio, the
  viewer and the standard library, with the arguments it computed. Each call is logged with
  the line of the script that makes it.
\<close>

datatype call =
    Model_init
  | GeometryModel_init
  | AddGeometryObject geometry_object
  | AddJoint nat joint_model SE3 string
  | AppendBodyToJoint nat inertia SE3
  | GepettoVisualizer_init
  | InitViewer
  | LoadViewerModel string
  | GetWindowID string
  | SetBackgroundColor1 nat ndarray
  | SetBackgroundColor2 nat ndarray
  | Neutral
  | Display ndarray
  | CreateData
  | ForwardKinematics ndarray
  | RigidContactModel_init rigid_contact_model
  | RigidContactModel_createData
  | RigidContactModel_size
  | Set_data_M matrix
  | ContactCholeskyDecomposition_init
  | ComputeJointJacobians ndarray
  | Kkt_compute double
  | GetFrameJacobian nat SE3 reference_frame
  | Print string
  | Print_value string double
  | Kkt_solve ndarray
  | Integrate ndarray ndarray
  | Set_corrector_Kp double
  | Set_corrector_Kd double
  | InitContactDynamics
  | ContactDynamics ndarray ndarray ndarray double
  | Sleep double

type_synonym log = "(nat \<times> call) list"

definition calls :: "log \<Rightarrow> call list" where
  "calls tr = map snd tr"

definition emit :: "nat \<Rightarrow> call \<Rightarrow> log \<Rightarrow> log" where
  "emit line c tr = tr @ [(line, c)]"

text \<open>
  The libraries are not part of the example. What a call returns, and what an attribute of a
  library object holds, is a parameter: a function of the calls made so far (the last of them
  being the call that returns), so that the library may keep any state it likes. Calls are
  taken to return. The numpy reductions whose rounding is left to the BLAS
  (\<^verbatim>\<open>dot\<close>, the 2-norm) and \<^verbatim>\<open>np.sqrt\<close> are parameters as well.
\<close>

record lib =
  addJoint_ret :: "call list \<Rightarrow> nat"
  model_nv :: "call list \<Rightarrow> nat"
  getWindowID_ret :: "call list \<Rightarrow> nat"
  neutral_ret :: "call list \<Rightarrow> ndarray"
  size_ret :: "call list \<Rightarrow> nat"
  default_reference_frame :: reference_frame
  c1Mc2_translation :: "call list \<Rightarrow> ndarray"
  getFrameJacobian_ret :: "call list \<Rightarrow> matrix"
  solve_ret :: "call list \<Rightarrow> ndarray"
  integrate_ret :: "call list \<Rightarrow> ndarray"
  contactDynamics_ret :: "call list \<Rightarrow> ndarray"
  np_dot :: "matrix \<Rightarrow> ndarray \<Rightarrow> error + ndarray"
  np_norm2 :: "ndarray \<Rightarrow> double"
  np_sqrt :: "double \<Rightarrow> double"


section \<open>The script\<close>

subsection \<open>Lines 8 to 38: dimensions, shapes, inertias, placements, colours\<close>

definition height :: double where "height = py_float (1 / 10)"
definition width :: double where "width = py_float (1 / 100)"
definition radius :: double where "radius = py_float (5 / 100)"

definition mass_link_A :: double where "mass_link_A = Fin 10"
definition length_link_A :: double where "length_link_A = Fin 1"
definition shape_link_A :: shape where "shape_link_A = Capsule radius length_link_A"

definition mass_link_B :: double where "mass_link_B = Fin 5"
definition length_link_B :: double where "length_link_B = py_float (6 / 10)"
definition shape_link_B :: shape where "shape_link_B = Capsule radius length_link_B"

definition inertia_link_A :: inertia where
  "inertia_link_A = FromBox mass_link_A length_link_A width height"

definition placement_center_link_A :: SE3 where
  "placement_center_link_A =
     SE3_Identity\<lparr>translation := np_div_scalar (np_mul_scalar XAxis length_link_A) (Fin 2)\<rparr>"

definition placement_shape_A :: SE3 where
  "placement_shape_A = placement_center_link_A\<lparr>rotation := FromTwoVectors ZAxis XAxis\<rparr>"

definition inertia_link_B :: inertia where
  "inertia_link_B = FromBox mass_link_B length_link_B width height"

definition placement_center_link_B :: SE3 where
  "placement_center_link_B =
     SE3_Identity\<lparr>translation := np_div_scalar (np_mul_scalar XAxis length_link_B) (Fin 2)\<rparr>"

definition placement_shape_B :: SE3 where
  "placement_shape_B = placement_center_link_B\<lparr>rotation := FromTwoVectors ZAxis XAxis\<rparr>"

definition RED_COLOR :: ndarray where "RED_COLOR = [Fin 1, Fin 0, Fin 0, Fin 1]"
definition WHITE_COLOR :: ndarray where "WHITE_COLOR = [Fin 1, Fin 1, Fin 1, Fin 1]"

subsection \<open>Lines 34 to 67: the model and its geometry\<close>

definition base_joint_id :: nat where "base_joint_id = 0"

definition geom_obj0 :: geometry_object where
  "geom_obj0 = \<lparr>go_name = ''link_A1'', go_parent_joint = base_joint_id,
     go_geometry = shape_link_A,
     go_placement = \<lparr>rotation = FromTwoVectors ZAxis XAxis, translation = np_zeros 3\<rparr>,
     go_meshColor = WHITE_COLOR\<rparr>"

definition joint1_placement :: SE3 where
  "joint1_placement =
     SE3_Identity\<lparr>translation := np_div_scalar (np_mul_scalar XAxis length_link_A) (Fin 2)\<rparr>"

definition geom_obj1 :: "nat \<Rightarrow> geometry_object" where
  "geom_obj1 joint1_id = \<lparr>go_name = ''link_B1'', go_parent_joint = joint1_id,
     go_geometry = shape_link_B, go_placement = placement_shape_B, go_meshColor = RED_COLOR\<rparr>"

definition joint2_placement :: SE3 where
  "joint2_placement = SE3_Identity\<lparr>translation := np_mul_scalar XAxis length_link_B\<rparr>"

definition geom_obj2 :: "nat \<Rightarrow> geometry_object" where
  "geom_obj2 joint2_id = \<lparr>go_name = ''link_A2'', go_parent_joint = joint2_id,
     go_geometry = shape_link_A, go_placement = placement_shape_A, go_meshColor = WHITE_COLOR\<rparr>"

definition joint3_placement :: SE3 where
  "joint3_placement = SE3_Identity\<lparr>translation := np_mul_scalar XAxis length_link_A\<rparr>"

definition geom_obj3 :: "nat \<Rightarrow> geometry_object" where
  "geom_obj3 joint3_id = \<lparr>go_name = ''link_B2'', go_parent_joint = joint3_id,
     go_geometry = shape_link_B, go_placement = placement_shape_B, go_meshColor = RED_COLOR\<rparr>"

text \<open>The result is the three joint ids that \<^verbatim>\<open>addJoint\<close> returned, and the log.\<close>

definition build_model :: "lib \<Rightarrow> log \<Rightarrow> (nat \<times> nat \<times> nat) \<times> log" where
  "build_model L tr0 =
    (let tr1 = emit 34 Model_init tr0;
         tr2 = emit 35 GeometryModel_init tr1;
         tr3 = emit 43 (AddGeometryObject geom_obj0) tr2;
         tr4 = emit 47 (AddJoint base_joint_id JointModelRY joint1_placement ''link_B1'') tr3;
         joint1_id = addJoint_ret L (calls tr4);
         tr5 = emit 48 (AppendBodyToJoint joint1_id inertia_link_B placement_center_link_B) tr4;
         tr6 = emit 51 (AddGeometryObject (geom_obj1 joint1_id)) tr5;
         tr7 = emit 55 (AddJoint joint1_id JointModelRY joint2_placement ''link_A2'') tr6;
         joint2_id = addJoint_ret L (calls tr7);
         tr8 = emit 56 (AppendBodyToJoint joint2_id inertia_link_A placement_center_link_A) tr7;
         tr9 = emit 59 (AddGeometryObject (geom_obj2 joint2_id)) tr8;
         tr10 = emit 63 (AddJoint joint2_id JointModelRY joint3_placement ''link_B2'') tr9;
         joint3_id = addJoint_ret L (calls tr10);
         tr11 = emit 64 (AppendBodyToJoint joint3_id inertia_link_B placement_center_link_B) tr10;
         tr12 = emit 67 (AddGeometryObject (geom_obj3 joint3_id)) tr11
     in ((joint1_id, joint2_id, joint3_id), tr12))"

subsection \<open>Lines 69 to 86: the viewer\<close>

text \<open>The result is the neutral configuration \<^verbatim>\<open>q0\<close>, and the log.\<close>

definition setup_visualizer :: "lib \<Rightarrow> log \<Rightarrow> ndarray \<times> log" where
  "setup_visualizer L tr0 =
    (let tr1 = emit 70 GepettoVisualizer_init tr0;
         tr2 = emit 71 InitViewer tr1;
         tr3 = emit 72 (LoadViewerModel ''pinocchio'') tr2;
         tr4 = emit 74 (GetWindowID ''python-pinocchio'') tr3;
         window_id = getWindowID_ret L (calls tr4);
         tr5 = emit 76 (SetBackgroundColor1 window_id [Fin 1, Fin 1, Fin 1, Fin 1]) tr4;
         tr6 = emit 77 (SetBackgroundColor2 window_id [Fin 1, Fin 1, Fin 1, Fin 1]) tr5;
         tr7 = emit 85 Neutral tr6;
         q0 = neutral_ret L (calls tr7);
         tr8 = emit 86 (Display q0) tr7
     in (q0, tr8))"

subsection \<open>Lines 88 to 133: the contact constraint and the inverse kinematics\<close>

definition constraint1_joint1_placement :: SE3 where
  "constraint1_joint1_placement =
     SE3_Identity\<lparr>translation := np_mul_scalar XAxis length_link_B\<rparr>"

definition constraint1_joint2_placement :: SE3 where
  "constraint1_joint2_placement =
     SE3_Identity\<lparr>translation :=
       np_div_scalar (np_mul_scalar (np_neg XAxis) length_link_A) (Fin 2)\<rparr>"

definition constraint_model :: "lib \<Rightarrow> nat \<Rightarrow> rigid_contact_model" where
  "constraint_model L joint3_id =
     \<lparr>cm_type = CONTACT_3D, cm_joint1_id = joint3_id,
      cm_joint1_placement = constraint1_joint1_placement,
      cm_joint2_id = base_joint_id, cm_joint2_placement = constraint1_joint2_placement,
      cm_reference_frame = default_reference_frame L\<rparr>"

definition rho :: double where "rho = py_float (1 / 10 ^ 10)"
definition mu :: double where "mu = py_float (1 / 10 ^ 4)"
definition eps :: double where "eps = py_float (1 / 10 ^ 10)"
definition N :: nat where "N = 100"
definition alpha :: double where "alpha = Fin 1"

record ik_state =
  ik_q :: ndarray
  ik_y :: ndarray
  ik_log :: log

text \<open>The result is the constraint model, \<^verbatim>\<open>constraint_dim\<close> and the state before the loop.\<close>

definition ik_setup :: "lib \<Rightarrow> nat \<Rightarrow> ndarray \<Rightarrow> log \<Rightarrow> rigid_contact_model \<times> nat \<times> ik_state" where
  "ik_setup L joint3_id q0 tr0 =
    (let tr1 = emit 88 CreateData tr0;
         tr2 = emit 89 (ForwardKinematics q0) tr1;
         cm = constraint_model L joint3_id;
         tr3 = emit 98 (RigidContactModel_init cm) tr2;
         tr4 = emit 99 RigidContactModel_createData tr3;
         tr5 = emit 100 RigidContactModel_size tr4;
         constraint_dim = size_ret L (calls tr5);
         q = q0;
         y = np_ones constraint_dim;
         tr6 = emit 109 (Set_data_M (map (\<lambda>row. np_mul_scalar row rho) (np_eye (model_nv L (calls tr5))))) tr5;
         tr7 = emit 110 ContactCholeskyDecomposition_init tr6
     in (cm, constraint_dim, \<lparr>ik_q = q, ik_y = y, ik_log = tr7\<rparr>))"

text \<open>
  How a pass through a loop body ends. An exception ends the script; the state it leaves
  behind, the log in particular, is kept next to it.
\<close>

datatype outcome = Raised error | Break | Continue

text \<open>The residuals of lines 119 and 120, from what the library holds after line 118.\<close>

definition primal_feas :: "ndarray \<Rightarrow> error + double" where
  "primal_feas constraint_value = np_norm_inf constraint_value"

definition dual_feas :: "lib \<Rightarrow> matrix \<Rightarrow> ndarray \<Rightarrow> ndarray \<Rightarrow> error + double" where
  "dual_feas L J constraint_value y =
     ebind (np_binop fadd constraint_value y) (\<lambda>cy.
     ebind (np_dot L (transpose J) cy) np_norm_inf)"

text \<open>Line 133, \<^verbatim>\<open>y -= alpha*(-dy + y)\<close>.\<close>

definition dual_update :: "ndarray \<Rightarrow> ndarray \<Rightarrow> error + ndarray" where
  "dual_update y dy =
     ebind (np_binop fadd (np_neg dy) y) (\<lambda>s. np_inplace fsub y (np_scalar_mul alpha s))"

text \<open>
  Lines 124 to 133, the step taken when the test of line 121 fails; \<open>constraint_value\<close> is
  what line 116 read.
\<close>

definition ik_step :: "lib \<Rightarrow> nat \<Rightarrow> ndarray \<Rightarrow> ik_state \<Rightarrow> outcome \<times> ik_state" where
  "ik_step L constraint_dim constraint_value s =
    (let tr4 = emit 124 (Print_value ''constraint_value:'' (np_norm2 L constraint_value)) (ik_log s)
     in case np_binop fsub (np_neg constraint_value) (np_mul_scalar (ik_y s) mu) of
          Inl e \<Rightarrow> (Raised e, s\<lparr>ik_log := tr4\<rparr>)
        | Inr r \<Rightarrow>
          let rhs = r @ np_zeros (model_nv L (calls tr4));
              tr5 = emit 127 (Kkt_solve rhs) tr4;
              dz = solve_ret L (calls tr5);
              dy = take constraint_dim dz;
              dq = drop constraint_dim dz;
              tr6 = emit 132 (Integrate (ik_q s) (np_scalar_mul (fneg alpha) dq)) tr5;
              q' = integrate_ret L (calls tr6)
          in case dual_update (ik_y s) dy of
               Inl e \<Rightarrow> (Raised e, \<lparr>ik_q = q', ik_y = ik_y s, ik_log = tr6\<rparr>)
             | Inr y' \<Rightarrow> (Continue, \<lparr>ik_q = q', ik_y = y', ik_log = tr6\<rparr>))"

text \<open>One pass through the body of the loop of line 113.\<close>

definition ik_body :: "lib \<Rightarrow> rigid_contact_model \<Rightarrow> nat \<Rightarrow> ik_state \<Rightarrow> outcome \<times> ik_state" where
  "ik_body L cm constraint_dim s =
    (let tr1 = emit 114 (ComputeJointJacobians (ik_q s)) (ik_log s);
         tr2 = emit 115 (Kkt_compute mu) tr1;
         constraint_value = c1Mc2_translation L (calls tr2);
         tr3 = emit 118 (GetFrameJacobian (cm_joint1_id cm) (cm_joint1_placement cm)
                  (cm_reference_frame cm)) tr2;
         J = take 3 (getFrameJacobian_ret L (calls tr3))
     in case primal_feas constraint_value of
          Inl e \<Rightarrow> (Raised e, s\<lparr>ik_log := tr3\<rparr>)
        | Inr primal \<Rightarrow>
       (case dual_feas L J constraint_value (ik_y s) of
          Inl e \<Rightarrow> (Raised e, s\<lparr>ik_log := tr3\<rparr>)
        | Inr dual \<Rightarrow>
          if flt primal eps \<and> flt dual eps
          then (Break, s\<lparr>ik_log := emit 122 (Print ''Convergence achieved'') tr3\<rparr>)
          else ik_step L constraint_dim constraint_value (s\<lparr>ik_log := tr3\<rparr>)))"

text \<open>\<^verbatim>\<open>for k in range(n)\<close>: at most \<open>n\<close> passes, fewer after a \<^verbatim>\<open>break\<close> or an exception.\<close>

primrec ik_loop :: "lib \<Rightarrow> rigid_contact_model \<Rightarrow> nat \<Rightarrow> nat \<Rightarrow> ik_state \<Rightarrow> error option \<times> ik_state" where
  "ik_loop L cm constraint_dim 0 s = (None, s)"
| "ik_loop L cm constraint_dim (Suc n) s =
     (case ik_body L cm constraint_dim s of
        (Raised e, s') \<Rightarrow> (Some e, s')
      | (Break, s') \<Rightarrow> (None, s')
      | (Continue, s') \<Rightarrow> ik_loop L cm constraint_dim n s')"

text \<open>
  What a pass that starts in state \<open>s\<close> reads at lines 116 and 118, the log after line 118,
  and the test of line 121.
\<close>

definition ik_constraint_value :: "lib \<Rightarrow> ik_state \<Rightarrow> ndarray" where
  "ik_constraint_value L s =
     c1Mc2_translation L (calls (ik_log s) @ [ComputeJointJacobians (ik_q s), Kkt_compute mu])"

definition ik_measured :: "rigid_contact_model \<Rightarrow> ik_state \<Rightarrow> log" where
  "ik_measured cm s = ik_log s @
     [(114, ComputeJointJacobians (ik_q s)), (115, Kkt_compute mu),
      (118, GetFrameJacobian (cm_joint1_id cm) (cm_joint1_placement cm) (cm_reference_frame cm))]"

definition ik_J :: "lib \<Rightarrow> rigid_contact_model \<Rightarrow> ik_state \<Rightarrow> matrix" where
  "ik_J L cm s = take 3 (getFrameJacobian_ret L (calls (ik_measured cm s)))"

definition ik_converged :: "lib \<Rightarrow> rigid_contact_model \<Rightarrow> ik_state \<Rightarrow> bool" where
  "ik_converged L cm s =
     (case primal_feas (ik_constraint_value L s) of Inl e \<Rightarrow> False | Inr primal \<Rightarrow>
      case dual_feas L (ik_J L cm s) (ik_constraint_value L s) (ik_y s) of Inl e \<Rightarrow> False
      | Inr dual \<Rightarrow> flt primal eps \<and> flt dual eps)"


subsection \<open>Lines 136 to 158: the solution and the simulation\<close>

definition q_sol :: "ndarray \<Rightarrow> ndarray" where
  "q_sol q = map wrap_angle q"

definition dt :: double where "dt = py_float (5 / 1000)"
definition T_sim :: double where "T_sim = Fin 100000"
definition mu_sim :: double where "mu_sim = py_float (1 / 10 ^ 10)"

record sim_state =
  sim_q :: ndarray
  sim_v :: ndarray
  sim_tau :: ndarray
  sim_t :: double
  sim_log :: log

definition sim_setup :: "lib \<Rightarrow> ik_state \<Rightarrow> sim_state" where
  "sim_setup L s =
    (let tr1 = emit 137 (Display (q_sol (ik_q s))) (ik_log s);
         q = q_sol (ik_q s);
         v = np_zeros (model_nv L (calls tr1));
         tau = np_zeros (model_nv L (calls tr1));
         tr2 = emit 148 (Set_corrector_Kp (Fin 10)) tr1;
         tr3 = emit 149 (Set_corrector_Kd (fmul (Fin 2) (np_sqrt L (Fin 10)))) tr2;
         tr4 = emit 150 InitContactDynamics tr3
     in \<lparr>sim_q = q, sim_v = v, sim_tau = tau, sim_t = Fin 0, sim_log = tr4\<rparr>)"

text \<open>One pass through the body of the loop of line 152.\<close>

definition sim_body :: "lib \<Rightarrow> sim_state \<Rightarrow> error option \<times> sim_state" where
  "sim_body L s =
    (let tr1 = emit 153 (ContactDynamics (sim_q s) (sim_v s) (sim_tau s) mu_sim) (sim_log s);
         a = contactDynamics_ret L (calls tr1)
     in case np_inplace fadd (sim_v s) (np_mul_scalar a dt) of
          Inl e \<Rightarrow> (Some e, s\<lparr>sim_log := tr1\<rparr>)
        | Inr v' \<Rightarrow>
        let tr2 = emit 155 (Integrate (sim_q s) (np_mul_scalar v' dt)) tr1;
            q' = integrate_ret L (calls tr2);
            tr3 = emit 156 (Display q') tr2;
            tr4 = emit 157 (Sleep dt) tr3
        in (None, s\<lparr>sim_q := q', sim_v := v', sim_t := fadd (sim_t s) dt, sim_log := tr4\<rparr>))"

text \<open>\<^verbatim>\<open>while t <= T_sim\<close>; \<open>None\<close> stands for a loop that never ends.\<close>

partial_function (option) sim_loop :: "lib \<Rightarrow> sim_state \<Rightarrow> (error option \<times> sim_state) option" where
  "sim_loop L s =
     (if fle (sim_t s) T_sim
      then (case sim_body L s of
              (Some e, s') \<Rightarrow> Some (Some e, s')
            | (None, s') \<Rightarrow> sim_loop L s')
      else Some (None, s))"

text \<open>Lines 1 to 112: everything before the first loop.\<close>

definition preamble :: "lib \<Rightarrow> rigid_contact_model \<times> nat \<times> ik_state" where
  "preamble L =
    (case build_model L [] of ((joint1_id, joint2_id, joint3_id), tr1) \<Rightarrow>
     case setup_visualizer L tr1 of (q0, tr2) \<Rightarrow>
     ik_setup L joint3_id q0 tr2)"

text \<open>
  The script, from its first line to its last: the exception that ended it, if any, and the
  log of its calls.
\<close>

definition script :: "lib \<Rightarrow> (error option \<times> log) option" where
  "script L =
    (case preamble L of (cm, constraint_dim, s0) \<Rightarrow>
     case ik_loop L cm constraint_dim N s0 of
       (Some e, s) \<Rightarrow> Some (Some e, ik_log s)
     | (None, s) \<Rightarrow>
       map_option (\<lambda>(e, s'). (e, sim_log s')) (sim_loop L (sim_setup L s)))"

text \<open>
  The entries that the two loops write to the log, each call with the line that makes it, and
  the number of entries of a log that a given line wrote.
\<close>

fun ik_entry :: "nat \<times> call \<Rightarrow> bool" where
  "ik_entry (l, ComputeJointJacobians q) = (l = 114)"
| "ik_entry (l, Kkt_compute m) = (l = 115)"
| "ik_entry (l, GetFrameJacobian j pl rf) = (l = 118)"
| "ik_entry (l, Print msg) = (l = 122)"
| "ik_entry (l, Print_value msg x) = (l = 124)"
| "ik_entry (l, Kkt_solve rhs) = (l = 127)"
| "ik_entry (l, Integrate q v) = (l = 132)"
| "ik_entry _ = False"

fun sim_entry :: "nat \<times> call \<Rightarrow> bool" where
  "sim_entry (l, ContactDynamics q v tau m) = (l = 153)"
| "sim_entry (l, Integrate q v) = (l = 155)"
| "sim_entry (l, Display q) = (l = 156)"
| "sim_entry (l, Sleep d) = (l = 157)"
| "sim_entry _ = False"

definition count_line :: "nat \<Rightarrow> log \<Rightarrow> nat" where
  "count_line l tr = length (filter (\<lambda>e. fst e = l) tr)"

text \<open>
  The log of the straight-line parts of the script: lines 34 to 67 for the joint ids that
  \<^verbatim>\<open>addJoint\<close> returned, lines 70 to 86 for the window id and \<^verbatim>\<open>q0\<close>, lines 88 to
  110 for the constraint model and the matrix stored in \<^verbatim>\<open>data.M\<close>, lines 137 to 150 for
  the configuration the loop of line 113 left and the value stored in \<^verbatim>\<open>corrector.Kd\<close>.
\<close>

definition build_log :: "nat \<Rightarrow> nat \<Rightarrow> nat \<Rightarrow> log" where
  "build_log j1 j2 j3 =
    [(34, Model_init), (35, GeometryModel_init), (43, AddGeometryObject geom_obj0),
     (47, AddJoint base_joint_id JointModelRY joint1_placement ''link_B1''),
     (48, AppendBodyToJoint j1 inertia_link_B placement_center_link_B),
     (51, AddGeometryObject (geom_obj1 j1)),
     (55, AddJoint j1 JointModelRY joint2_placement ''link_A2''),
     (56, AppendBodyToJoint j2 inertia_link_A placement_center_link_A),
     (59, AddGeometryObject (geom_obj2 j2)),
     (63, AddJoint j2 JointModelRY joint3_placement ''link_B2''),
     (64, AppendBodyToJoint j3 inertia_link_B placement_center_link_B),
     (67, AddGeometryObject (geom_obj3 j3))]"

definition viewer_log :: "nat \<Rightarrow> ndarray \<Rightarrow> log" where
  "viewer_log w q0 =
    [(70, GepettoVisualizer_init), (71, InitViewer), (72, LoadViewerModel ''pinocchio''),
     (74, GetWindowID ''python-pinocchio''),
     (76, SetBackgroundColor1 w [Fin 1, Fin 1, Fin 1, Fin 1]),
     (77, SetBackgroundColor2 w [Fin 1, Fin 1, Fin 1, Fin 1]),
     (85, Neutral), (86, Display q0)]"

definition ik_setup_log :: "rigid_contact_model \<Rightarrow> ndarray \<Rightarrow> matrix \<Rightarrow> log" where
  "ik_setup_log cm q0 M =
    [(88, CreateData), (89, ForwardKinematics q0), (98, RigidContactModel_init cm),
     (99, RigidContactModel_createData), (100, RigidContactModel_size),
     (109, Set_data_M M), (110, ContactCholeskyDecomposition_init)]"

definition sim_setup_log :: "ndarray \<Rightarrow> double \<Rightarrow> log" where
  "sim_setup_log q kd =
    [(137, Display (q_sol q)), (148, Set_corrector_Kp (Fin 10)),
     (149, Set_corrector_Kd kd), (150, InitContactDynamics)]"

text \<open>
  The calls that put something into the mechanism: a joint, a geometry object, a constraint.
\<close>

fun is_AddGeometryObject :: "call \<Rightarrow> bool" where
  "is_AddGeometryObject (AddGeometryObject g) = True"
| "is_AddGeometryObject _ = False"

fun is_RigidContactModel_init :: "call \<Rightarrow> bool" where
  "is_RigidContactModel_init (RigidContactModel_init cm) = True"
| "is_RigidContactModel_init _ = False"

fun is_Capsule :: "shape \<Rightarrow> bool" where
  "is_Capsule (Capsule r l) = True"
| "is_Capsule _ = False"

fun is_construction :: "call \<Rightarrow> bool" where
  "is_construction (AddJoint p j pl n) = True"
| "is_construction (AddGeometryObject g) = True"
| "is_construction (RigidContactModel_init cm) = True"
| "is_construction _ = False"

text \<open>
  The four parts of the script by line: construction of the model and its geometry, the
  viewer, the inverse kinematics (with the constraint it needs), the simulation.
\<close>

definition phase_of_line :: "nat \<Rightarrow> nat" where
  "phase_of_line l = (if l \<le> 67 then 1 else if l \<le> 86 then 2 else if l \<le> 133 then 3 else 4)"

text \<open>
  For counting the passes of the loop of line 152: \<open>n\<close> passes through its body, ended early
  by an exception, and the value of \<^verbatim>\<open>t\<close> after \<open>k\<close> additions of \<open>dt\<close>.
\<close>

primrec sim_iter :: "lib \<Rightarrow> nat \<Rightarrow> sim_state \<Rightarrow> error option \<times> sim_state" where
  "sim_iter L 0 s = (None, s)"
| "sim_iter L (Suc n) s =
     (case sim_body L s of (Some e, s') \<Rightarrow> (Some e, s') | (None, s') \<Rightarrow> sim_iter L n s')"

primrec clock :: "nat \<Rightarrow> double \<Rightarrow> double" where
  "clock 0 t = t"
| "clock (Suc k) t = clock k (fadd t dt)"

text \<open>The rational that the double \<^verbatim>\<open>5e-3\<close> denotes.\<close>

definition dt_rat :: rat where "dt_rat = 5764607523034235 / 2 ^ 60"

section \<open>A library to run the script against\<close>

text \<open>
  A small instance of the library, to run the definitions on: joint ids count the joints
  added so far, the three joints have one degree of freedom each, the constraint is violated
  until the first solve of the KKT system and met afterwards, the Jacobian and the
  accelerations are zero, and \<^verbatim>\<open>integrate\<close> adds the velocity to the configuration, as
  it does for revolute joints.
\<close>

fun is_AddJoint :: "call \<Rightarrow> bool" where
  "is_AddJoint (AddJoint p j pl n) = True"
| "is_AddJoint _ = False"

fun is_Kkt_solve :: "call \<Rightarrow> bool" where
  "is_Kkt_solve (Kkt_solve rhs) = True"
| "is_Kkt_solve _ = False"

definition toy_dot :: "matrix \<Rightarrow> ndarray \<Rightarrow> error + ndarray" where
  "toy_dot M x =
     (if list_all (\<lambda>row. length row = length x) M
      then Inr (map (\<lambda>row. foldl fadd (Fin 0) (map2 fmul row x)) M)
      else Inl ValueError)"

definition toy_lib :: lib where
  "toy_lib = \<lparr>
     addJoint_ret = (\<lambda>h. length (filter is_AddJoint h)),
     model_nv = (\<lambda>h. length (filter is_AddJoint h)),
     getWindowID_ret = (\<lambda>h. 0),
     neutral_ret = (\<lambda>h. np_zeros (length (filter is_AddJoint h))),
     size_ret = (\<lambda>h. 3),
     default_reference_frame = LOCAL,
     c1Mc2_translation =
       (\<lambda>h. if list_ex is_Kkt_solve h then np_zeros 3 else [Fin 1, Fin 0, Fin 0]),
     getFrameJacobian_ret = (\<lambda>h. replicate 6 (np_zeros (length (filter is_AddJoint h)))),
     solve_ret = (\<lambda>h. case last h of Kkt_solve rhs \<Rightarrow> np_zeros (length rhs) | _ \<Rightarrow> []),
     integrate_ret = (\<lambda>h. case last h of Integrate q v \<Rightarrow> map2 fadd q v | _ \<Rightarrow> []),
     contactDynamics_ret =
       (\<lambda>h. case last h of ContactDynamics q v tau m \<Rightarrow> np_zeros (length v) | _ \<Rightarrow> []),
     np_dot = toy_dot,
     np_norm2 = (\<lambda>xs. foldl np_maximum (Fin 0) (map fabs xs)),
     np_sqrt = (\<lambda>x. if x = Fin 10 then Fin (7120816245988179 / 2251799813685248) else NaN)\<rparr>"

definition rest_state :: sim_state where
  "rest_state =
     \<lparr>sim_q = np_zeros 3, sim_v = np_zeros 3, sim_tau = np_zeros 3, sim_t = Fin 0, sim_log = []\<rparr>"




text \<open>
  The same library with a constraint that stays violated whatever is solved: no pass of the
  inverse-kinematics loop converges against it.
\<close>

definition stuck_lib :: lib where
  "stuck_lib = toy_lib\<lparr>c1Mc2_translation := (\<lambda>h. [Fin 1, Fin 0, Fin 0])\<rparr>"

definition stuck_start :: ik_state where
  "stuck_start = snd (snd (preamble stuck_lib))"

text \<open>
  The state in which the script enters the inverse-kinematics loop against \<open>toy_lib\<close>, and
  the state after the first pass, in which the constraint is met.
\<close>

definition toy_start :: ik_state where
  "toy_start = snd (snd (preamble toy_lib))"




text \<open>
  The same library with a contact dynamics that returns the acceleration 1, and a state with
  one joint at a quarter of a radian, at rest.
\<close>

definition kick_lib :: lib where
  "kick_lib = toy_lib\<lparr>contactDynamics_ret := (\<lambda>h. [Fin 1])\<rparr>"

definition kick_state :: sim_state where
  "kick_state =
     \<lparr>sim_q = [Fin (1 / 4)], sim_v = [Fin 0], sim_tau = [Fin 0], sim_t = Fin 0, sim_log = []\<rparr>"

section \<open>Rounding to a double\<close>

lemma pow2_less_iff: "(2::rat) powi m < 2 powi n \<longleftrightarrow> m < n"
proof
  assume "(2::rat) powi m < 2 powi n"
  show "m < n"
  proof (rule ccontr)
    assume "\<not> m < n"
    then have "(2::rat) powi n \<le> 2 powi m" by (intro power_int_increasing) auto
    with \<open>(2::rat) powi m < 2 powi n\<close> show False by simp
  qed
next
  assume "m < n"
  then show "(2::rat) powi m < 2 powi n" by (intro power_int_strict_increasing) auto
qed

lemma pow2_le_iff: "(2::rat) powi m \<le> 2 powi n \<longleftrightarrow> m \<le> n"
  using pow2_less_iff[of n m] by (auto simp: not_less[symmetric])

lemma pow2_pos: "0 < (2::rat) powi n"
  by simp

lemma bitlen_powi:
  assumes "0 < a"
  shows "(2::rat) powi (bitlen a - 1) \<le> of_int a" and "of_int a < (2::rat) powi (bitlen a)"
proof -
  have b1: "1 \<le> bitlen a" using assms by (auto simp: bitlen_alt_def)
  have "(2::int) ^ nat (bitlen a - 1) \<le> a" and lt: "a < 2 ^ nat (bitlen a)"
    using bitlen_bounds[OF assms] by auto
  then have "(of_int ((2::int) ^ nat (bitlen a - 1)) :: rat) \<le> of_int a"
    by (simp only: of_int_le_iff)
  then show "(2::rat) powi (bitlen a - 1) \<le> of_int a"
    using b1 by (simp add: power_int_def)
  have "(of_int a :: rat) < of_int ((2::int) ^ nat (bitlen a))"
    using lt by (simp only: of_int_less_iff)
  then show "of_int a < (2::rat) powi (bitlen a)"
    using b1 by (simp add: power_int_def)
qed

lemma ilog2_bounds:
  assumes "x \<noteq> 0"
  shows "2 powi (ilog2 x) \<le> \<bar>x\<bar>" and "\<bar>x\<bar> < 2 powi (ilog2 x + 1)"
proof -
  obtain a b where q: "quotient_of \<bar>x\<bar> = (a, b)" by (cases "quotient_of \<bar>x\<bar>")
  have b0: "0 < b" using q by (rule quotient_of_denom_pos)
  have xab: "\<bar>x\<bar> = of_int a / of_int b" using q by (rule quotient_of_div)
  have a0: "0 < a"
  proof (rule ccontr)
    assume "\<not> 0 < a"
    then have "(of_int a :: rat) \<le> 0" by simp
    then have "\<bar>x\<bar> \<le> 0" unfolding xab using b0 by (simp add: divide_le_0_iff)
    then show False using assms by simp
  qed
  define d where "d = bitlen a - bitlen b"
  have B: "0 < (of_int b :: rat)" using b0 by simp
  have up: "\<bar>x\<bar> < 2 powi (d + 1)"
  proof -
    have "of_int a < (2::rat) powi (bitlen a)" using bitlen_powi(2)[OF a0] .
    moreover have "(2::rat) powi (bitlen b - 1) \<le> of_int b" using bitlen_powi(1)[OF b0] .
    ultimately have "of_int a * (2::rat) powi (bitlen b - 1) < 2 powi (bitlen a) * of_int b"
      by (intro mult_less_le_imp_less) (use a0 in auto)
    then have "of_int a / of_int b < (2::rat) powi (bitlen a) / 2 powi (bitlen b - 1)"
      using B by (simp add: field_simps)
    also have "\<dots> = 2 powi (d + 1)"
      by (simp add: d_def power_int_diff[symmetric] algebra_simps)
    finally show ?thesis unfolding xab .
  qed
  have lo: "2 powi (d - 1) \<le> \<bar>x\<bar>"
  proof -
    have "(2::rat) powi (bitlen a - 1) \<le> of_int a" using bitlen_powi(1)[OF a0] .
    moreover have "of_int b \<le> (2::rat) powi (bitlen b)" using bitlen_powi(2)[OF b0] by simp
    ultimately have "(2::rat) powi (bitlen a - 1) * of_int b \<le> of_int a * 2 powi (bitlen b)"
      by (intro mult_mono) (use a0 b0 in auto)
    then have "(2::rat) powi (bitlen a - 1) / 2 powi (bitlen b) \<le> of_int a / of_int b"
      using B by (simp add: field_simps)
    moreover have "(2::rat) powi (bitlen a - 1) / 2 powi (bitlen b) = 2 powi (d - 1)"
      by (simp add: d_def power_int_diff[symmetric] algebra_simps)
    ultimately show ?thesis unfolding xab by simp
  qed
  have il: "ilog2 x = (if 2 powi d \<le> \<bar>x\<bar> then d else d - 1)"
    by (simp add: ilog2_def q d_def Let_def)
  show "2 powi (ilog2 x) \<le> \<bar>x\<bar>" using lo by (simp add: il)
  show "\<bar>x\<bar> < 2 powi (ilog2 x + 1)" using up by (auto simp: il)
qed

lemma ilog2_unique:
  assumes "2 powi k \<le> \<bar>x\<bar>" and "\<bar>x\<bar> < 2 powi (k + 1)"
  shows "ilog2 x = k"
proof -
  have x0: "x \<noteq> 0"
  proof
    assume "x = 0"
    then have "(2::rat) powi k \<le> 0" using assms(1) by simp
    then show False using pow2_pos[of k] by simp
  qed
  have "(2::rat) powi k < 2 powi (ilog2 x + 1)"
    using assms(1) ilog2_bounds(2)[OF x0] by simp
  then have "k < ilog2 x + 1" by (simp add: pow2_less_iff)
  moreover have "(2::rat) powi (ilog2 x) < 2 powi (k + 1)"
    using assms(2) ilog2_bounds(1)[OF x0] by simp
  then have "ilog2 x < k + 1" by (simp add: pow2_less_iff)
  ultimately show ?thesis by simp
qed

lemma ilog2_le:
  assumes "x \<noteq> 0" and "\<bar>x\<bar> < 2 powi (k + 1)"
  shows "ilog2 x \<le> k"
proof -
  have "(2::rat) powi (ilog2 x) < 2 powi (k + 1)"
    using assms(2) ilog2_bounds(1)[OF assms(1)] by simp
  then have "ilog2 x < k + 1" by (simp add: pow2_less_iff)
  then show ?thesis by simp
qed

lemma ilog2_ge:
  assumes "2 powi k \<le> \<bar>x\<bar>"
  shows "k \<le> ilog2 x"
proof -
  have x0: "x \<noteq> 0"
  proof
    assume "x = 0"
    then have "(2::rat) powi k \<le> 0" using assms(1) by simp
    then show False using pow2_pos[of k] by simp
  qed
  have "(2::rat) powi k < 2 powi (ilog2 x + 1)"
    using assms(1) ilog2_bounds(2)[OF x0] by simp
  then have "k < ilog2 x + 1" by (simp add: pow2_less_iff)
  then show ?thesis by simp
qed


lemma rhe_err: "\<bar>of_int (round_half_even x) - x\<bar> \<le> 1 / 2"
proof -
  have "of_int \<lfloor>x\<rfloor> \<le> x" "x < of_int \<lfloor>x\<rfloor> + 1" by linarith+
  then show ?thesis by (auto simp: round_half_even_def Let_def abs_le_iff)
qed

lemma rhe_int [simp]: "round_half_even (of_int n) = n"
  by (simp add: round_half_even_def)

lemma rhe_ge: "of_int k \<le> x \<Longrightarrow> k \<le> round_half_even x"
proof -
  assume "of_int k \<le> x"
  then have "k \<le> \<lfloor>x\<rfloor>" by (simp add: le_floor_iff)
  then show ?thesis by (auto simp: round_half_even_def Let_def)
qed

lemma rhe_le_half: "x < of_int k + 1 / 2 \<Longrightarrow> round_half_even x \<le> k"
proof -
  assume a: "x < of_int k + 1 / 2"
  have fl: "\<lfloor>x\<rfloor> \<le> k"
  proof -
    have "x < of_int (k + 1)" using a by simp
    then have "\<lfloor>x\<rfloor> < k + 1" by (simp only: floor_less_iff)
    then show ?thesis by simp
  qed
  show ?thesis
  proof (cases "\<lfloor>x\<rfloor> = k")
    case True
    then have "x - of_int \<lfloor>x\<rfloor> < 1 / 2" using a by simp
    then show ?thesis using True by (simp add: round_half_even_def Let_def)
  next
    case False
    then have "\<lfloor>x\<rfloor> + 1 \<le> k" using fl by simp
    then show ?thesis by (auto simp: round_half_even_def Let_def)
  qed
qed

lemma rhe_le: "x \<le> of_int k \<Longrightarrow> round_half_even x \<le> k"
  by (rule rhe_le_half) simp

lemma rhe_neg: "round_half_even (- x) = - round_half_even x"
proof (cases "x = of_int \<lfloor>x\<rfloor>")
  case True
  then obtain n where "x = of_int n" ..
  then show ?thesis using rhe_int[of "- n"] by simp
next
  case False
  have c: "\<lceil>x\<rceil> = \<lfloor>x\<rfloor> + 1" using False
    by (metis ceiling_altdef)
  have f: "\<lfloor>- x\<rfloor> = - \<lfloor>x\<rfloor> - 1" using c by (simp add: ceiling_def)
  have "of_int \<lfloor>x\<rfloor> \<le> x" "x < of_int \<lfloor>x\<rfloor> + 1" by linarith+
  then show ?thesis using False
    by (auto simp: round_half_even_def Let_def f)
qed


lemma rhe_zero [simp]: "round_half_even 0 = 0"
  using rhe_int[of 0] by simp

lemma quantum_pos: "0 < quantum x"
  by (simp add: quantum_def)

lemma round_double_FinD:
  assumes "round_double x = Fin y"
  shows "y = of_int (round_half_even (x / quantum x)) * quantum x" and "\<bar>y\<bar> < 2 powi 1024"
proof -
  show "y = of_int (round_half_even (x / quantum x)) * quantum x"
    using assms by (cases "x = 0") (auto simp: round_double_def Let_def split: if_splits)
  show "\<bar>y\<bar> < 2 powi 1024"
    using assms by (cases "x = 0") (auto simp: round_double_def Let_def split: if_splits)
qed

lemma round_double_FinI:
  assumes "\<bar>of_int (round_half_even (x / quantum x)) * quantum x\<bar> < 2 powi 1024"
  shows "round_double x = Fin (of_int (round_half_even (x / quantum x)) * quantum x)"
  using assms by (cases "x = 0") (auto simp: round_double_def Let_def)

lemma rounded_err: "\<bar>of_int (round_half_even (x / quantum x)) * quantum x - x\<bar> \<le> quantum x / 2"
proof -
  let ?q = "quantum x"
  have q: "0 < ?q" by (rule quantum_pos)
  have "\<bar>of_int (round_half_even (x / ?q)) - x / ?q\<bar> \<le> 1 / 2" by (rule rhe_err)
  then have "\<bar>of_int (round_half_even (x / ?q)) - x / ?q\<bar> * ?q \<le> 1 / 2 * ?q"
    using q by (intro mult_right_mono) auto
  moreover have "\<bar>of_int (round_half_even (x / ?q)) - x / ?q\<bar> * ?q
      = \<bar>of_int (round_half_even (x / ?q)) * ?q - x\<bar>"
  proof -
    have "\<bar>of_int (round_half_even (x / ?q)) - x / ?q\<bar> * ?q
        = \<bar>(of_int (round_half_even (x / ?q)) - x / ?q) * ?q\<bar>"
      using q by (simp add: abs_mult)
    also have "(of_int (round_half_even (x / ?q)) - x / ?q) * ?q
        = of_int (round_half_even (x / ?q)) * ?q - x"
      using q by (simp add: field_simps)
    finally show ?thesis .
  qed
  ultimately show ?thesis by simp
qed


lemma quantum_le:
  assumes "x \<noteq> 0" and "\<bar>x\<bar> < 2 powi (k + 1)" and "- 1022 \<le> k"
  shows "quantum x \<le> 2 powi (k - 52)"
proof -
  have "ilog2 x \<le> k" using ilog2_le[OF assms(1,2)] .
  then have "max (ilog2 x) (- 1022) - 52 \<le> k - 52" using assms(3) by simp
  then show ?thesis unfolding quantum_def by (simp only: pow2_le_iff)
qed

lemma round_double_bounded:
  assumes "\<bar>x\<bar> < 2 powi (k + 1)" and "- 1022 \<le> k" and "k \<le> 1022"
  shows "\<exists>y. round_double x = Fin y \<and> \<bar>y - x\<bar> \<le> 2 powi (k - 53)"
proof (cases "x = 0")
  case True
  then show ?thesis by (simp add: round_double_def)
next
  case False
  let ?y = "of_int (round_half_even (x / quantum x)) * quantum x"
  have q: "quantum x \<le> 2 powi (k - 52)" using quantum_le[OF False assms(1,2)] .
  have h: "(2::rat) powi (k - 52) / 2 = 2 powi (k - 53)"
    using power_int_diff[of "2::rat" "k - 52" 1] by simp
  have e: "\<bar>?y - x\<bar> \<le> 2 powi (k - 53)"
    using rounded_err[of x] q h by linarith
  have "k - 53 \<le> k + 1" by simp
  then have "(2::rat) powi (k - 53) \<le> 2 powi (k + 1)" by (simp only: pow2_le_iff)
  then have "\<bar>?y\<bar> < 2 powi (k + 1) + 2 powi (k + 1)" using e assms(1) by linarith
  also have "\<dots> = 2 powi (k + 2)"
    using power_int_add[of "2::rat" "k + 1" 1] by (simp add: add.commute)
  also have "\<dots> \<le> 2 powi 1024"
  proof -
    have "k + 2 \<le> 1024" using assms(3) by simp
    then show ?thesis by (simp only: pow2_le_iff)
  qed
  finally have "round_double x = Fin ?y" by (rule round_double_FinI)
  then show ?thesis using e by blast
qed

lemma rhe_eqI:
  assumes "\<bar>of_int n - x\<bar> < 1 / 2"
  shows "round_half_even x = n"
proof -
  have "x < of_int n + 1 / 2" using assms by linarith
  then have a: "round_half_even x \<le> n" by (rule rhe_le_half)
  have "- x < - of_int n + 1 / 2" using assms by linarith
  then have "- x < of_int (- n) + 1 / 2" by simp
  then have "round_half_even (- x) \<le> - n" by (rule rhe_le_half)
  then have "n \<le> round_half_even x" by (simp add: rhe_neg)
  with a show ?thesis by simp
qed

lemma round_double_eqI:
  assumes "2 powi e \<le> \<bar>x\<bar>" and "\<bar>x\<bar> < 2 powi (e + 1)" and "- 1022 \<le> e" and "e \<le> 1022"
    and "\<bar>of_int n - x / 2 powi (e - 52)\<bar> < 1 / 2"
  shows "round_double x = Fin (of_int n * 2 powi (e - 52))"
proof -
  have e: "ilog2 x = e" using assms(1,2) by (rule ilog2_unique)
  have q: "quantum x = 2 powi (e - 52)" using assms(3) by (simp add: quantum_def e max_def)
  have r: "round_half_even (x / 2 powi (e - 52)) = n" using assms(5) by (rule rhe_eqI)
  obtain y where y: "round_double x = Fin y"
    using round_double_bounded[OF assms(2,3,4)] by blast
  have "y = of_int (round_half_even (x / quantum x)) * quantum x"
    using round_double_FinD(1)[OF y] .
  then have "y = of_int n * 2 powi (e - 52)" by (simp only: q r)
  then show ?thesis using y by simp
qed

lemma dt_val: "dt = Fin (5764607523034235 / 2 ^ 60)"
proof -
  have "round_double (5 / 1000) = Fin (of_int 5764607523034235 * 2 powi (- 8 - 52))"
    by (rule round_double_eqI) (simp_all add: power_int_minus field_simps)
  then show ?thesis by (simp add: dt_def py_float_def power_int_minus field_simps)
qed

lemma eps_val: "eps = Fin (7737125245533627 / 2 ^ 86)"
proof -
  have "round_double (1 / 10 ^ 10) = Fin (of_int 7737125245533627 * 2 powi (- 34 - 52))"
    by (rule round_double_eqI) (simp_all add: power_int_minus field_simps)
  then show ?thesis by (simp add: eps_def py_float_def power_int_minus field_simps)
qed

lemma round_double_0 [simp]: "round_double 0 = Fin 0"
  by (simp add: round_double_def)

lemma pow2_int:
  assumes "0 \<le> i"
  shows "(2::rat) powi i = of_int (2 ^ nat i)"
  using assms by (simp add: power_int_def)

lemma pow2_add: "(2::rat) powi (i + j) = 2 powi i * 2 powi j"
  by (simp add: power_int_add)


text \<open>A multiple of a power of two with at most 53 significant bits is a double.\<close>

lemma round_double_grid:
  assumes "\<bar>m\<bar> \<le> 2 ^ 53" and "- 1074 \<le> k" and "\<bar>of_int m * 2 powi k\<bar> < (2::rat) powi 1024"
  shows "round_double (of_int m * 2 powi k) = Fin (of_int m * 2 powi k)"
proof (cases "m = 0")
  case True
  then show ?thesis by simp
next
  case False
  let ?x = "of_int m * (2::rat) powi k"
  have x0: "?x \<noteq> 0" using False by simp
  have ax: "\<bar>?x\<bar> = of_int \<bar>m\<bar> * 2 powi k" by (simp add: abs_mult)
  have "\<exists>j. quantum ?x = 2 powi j \<and> j \<le> k + 1 \<and> (j \<le> k \<or> \<bar>m\<bar> = 2 ^ 53)"
  proof (cases "\<bar>m\<bar> = 2 ^ 53")
    case True
    have "\<bar>?x\<bar> = 2 powi (k + 53)" using True by (simp add: ax pow2_add)
    then have "ilog2 ?x = k + 53" by (intro ilog2_unique) (simp_all add: pow2_less_iff)
    moreover have "max (k + 53) (- 1022) - 52 = k + 1" using assms(2) by simp
    ultimately have "quantum ?x = 2 powi (k + 1)" by (simp only: quantum_def)
    then show ?thesis using True by (intro exI[of _ "k + 1"]) simp
  next
    case False
    then have "\<bar>m\<bar> < 2 ^ 53" using assms(1) by simp
    then have "(of_int \<bar>m\<bar> :: rat) < of_int (2 ^ 53)" by (simp only: of_int_less_iff)
    then have "of_int \<bar>m\<bar> * (2::rat) powi k < 2 ^ 53 * 2 powi k"
      by (intro mult_strict_right_mono) simp_all
    then have "\<bar>?x\<bar> < 2 powi (k + 52 + 1)" by (simp add: ax pow2_add)
    then have "ilog2 ?x \<le> k + 52" using x0 by (intro ilog2_le)
    then have le: "max (ilog2 ?x) (- 1022) - 52 \<le> k" using assms(2) by simp
    have q: "quantum ?x = 2 powi (max (ilog2 ?x) (- 1022) - 52)" by (simp only: quantum_def)
    have le1: "max (ilog2 ?x) (- 1022) - 52 \<le> k + 1" using le by linarith
    show ?thesis
      by (intro exI[of _ "max (ilog2 ?x) (- 1022) - 52"] conjI disjI1) (fact q, fact le1, fact le)
  qed
  then obtain j where j: "quantum ?x = 2 powi j" "j \<le> k + 1" "j \<le> k \<or> \<bar>m\<bar> = 2 ^ 53"
    by blast
  have "\<exists>n. ?x / quantum ?x = of_int n"
  proof (cases "j \<le> k")
    case True
    have 1: "?x / quantum ?x = of_int m * ((2::rat) powi k / 2 powi j)" by (simp add: j(1))
    have 2: "(2::rat) powi k / 2 powi j = 2 powi (k - j)" by (simp add: power_int_diff)
    have 3: "(2::rat) powi (k - j) = of_int (2 ^ nat (k - j))" using True by (intro pow2_int) simp
    have "?x / quantum ?x = of_int (m * 2 ^ nat (k - j))" by (simp only: 1 2 3 of_int_mult)
    then show ?thesis by blast
  next
    case False
    then have jk: "j = k + 1" and m: "\<bar>m\<bar> = 2 ^ 53" using j(2,3) by auto
    have 1: "?x / quantum ?x = of_int m * ((2::rat) powi k / 2 powi j)" by (simp add: j(1))
    have 2: "(2::rat) powi k / 2 powi j = 2 powi (k - j)" by (simp add: power_int_diff)
    have 3: "k - j = - 1" using jk by simp
    have "?x / quantum ?x = of_int m / 2" by (simp add: 1 2 3)
    moreover have "m = 2 ^ 53 \<or> m = - (2 ^ 53)" using m by (auto simp: abs_if split: if_splits)
    ultimately have "?x / quantum ?x = of_int (m div 2)" by auto
    then show ?thesis by blast
  qed
  then obtain n where n: "?x / quantum ?x = of_int n" by blast
  have "of_int n * quantum ?x = ?x"
    using n quantum_pos[of ?x] by (simp add: field_simps)
  then have "of_int (round_half_even (?x / quantum ?x)) * quantum ?x = ?x" by (simp add: n)
  then show ?thesis using round_double_FinI[of ?x] assms(3) by simp
qed


lemma rounded_mantissa:
  assumes "x \<noteq> 0"
  shows "\<bar>round_half_even (x / quantum x)\<bar> \<le> 2 ^ 53"
proof -
  define k where "k = max (ilog2 x) (- 1022) - 52"
  have q: "quantum x = 2 powi k" by (simp add: quantum_def k_def)
  have "\<bar>x\<bar> < 2 powi (ilog2 x + 1)" using ilog2_bounds(2)[OF assms] .
  also have "(2::rat) powi (ilog2 x + 1) \<le> 2 powi (k + 53)"
    by (simp only: pow2_le_iff) (simp add: k_def)
  also have "(2::rat) powi (k + 53) = 2 ^ 53 * 2 powi k" by (simp add: pow2_add)
  finally have "\<bar>x\<bar> / 2 powi k < 2 ^ 53" by (simp add: field_simps)
  then have "\<bar>x / quantum x\<bar> < of_int (2 ^ 53)" by (simp add: q abs_divide)
  then have "x / quantum x \<le> of_int (2 ^ 53)" "of_int (- (2 ^ 53)) \<le> x / quantum x"
    by (simp_all only: abs_less_iff of_int_minus) linarith+
  then have "round_half_even (x / quantum x) \<le> 2 ^ 53" "- (2 ^ 53) \<le> round_half_even (x / quantum x)"
    using rhe_le rhe_ge by blast+
  then show ?thesis by (simp add: abs_le_iff)
qed

lemma round_double_idem:
  assumes "round_double x = Fin y"
  shows "round_double y = Fin y"
proof (cases "x = 0")
  case True
  then show ?thesis using assms by simp
next
  case False
  define k where "k = max (ilog2 x) (- 1022) - 52"
  have q: "quantum x = 2 powi k" by (simp add: quantum_def k_def)
  have y: "y = of_int (round_half_even (x / quantum x)) * 2 powi k"
    using round_double_FinD(1)[OF assms] by (simp add: q)
  have "- 1074 \<le> k" by (simp add: k_def)
  moreover have "\<bar>of_int (round_half_even (x / quantum x)) * (2::rat) powi k\<bar> < 2 powi 1024"
    using round_double_FinD(2)[OF assms] y by simp
  ultimately show ?thesis
    unfolding y using rounded_mantissa[OF False] by (intro round_double_grid)
qed


section \<open>The simulation step\<close>

lemma map2_map_right: "map2 f xs (map g ys) = map2 (\<lambda>x y. f x (g y)) xs ys"
  by (simp add: zip_map2 case_prod_unfold)

lemma np_inplace_broadcast:
  assumes "length xs = 1"
  shows "np_inplace f ys xs = Inr (map (\<lambda>y. f y (hd xs)) ys)"
proof -
  obtain x where x: "xs = [x]" using assms by (cases xs) simp_all
  show ?thesis
  proof (cases "length ys = 1")
    case True
    then obtain y where "ys = [y]" by (cases ys) simp_all
    then show ?thesis by (simp add: np_inplace_def x)
  next
    case False
    then show ?thesis by (simp add: np_inplace_def x)
  qed
qed

lemma sim_body_same_length:
  assumes "length (contactDynamics_ret L (calls (sim_log s) @
              [ContactDynamics (sim_q s) (sim_v s) (sim_tau s) mu_sim])) = length (sim_v s)"
  shows "sim_body L s =
     (let a = contactDynamics_ret L (calls (sim_log s) @
                [ContactDynamics (sim_q s) (sim_v s) (sim_tau s) mu_sim]);
          v' = map2 (\<lambda>v a. fadd v (fmul a dt)) (sim_v s) a;
          q' = integrate_ret L (calls (sim_log s) @
                [ContactDynamics (sim_q s) (sim_v s) (sim_tau s) mu_sim,
                 Integrate (sim_q s) (map (\<lambda>v. fmul v dt) v')])
      in (None, s\<lparr>sim_q := q', sim_v := v', sim_t := fadd (sim_t s) dt,
            sim_log := sim_log s @
              [(153, ContactDynamics (sim_q s) (sim_v s) (sim_tau s) mu_sim),
               (155, Integrate (sim_q s) (map (\<lambda>v. fmul v dt) v')),
               (156, Display q'),
               (157, Sleep dt)]\<rparr>))"
  using assms
  by (simp add: sim_body_def Let_def emit_def calls_def np_inplace_def np_mul_scalar_def
      map2_map_right)

lemma sim_body_broadcast:
  assumes "length (contactDynamics_ret L (calls (sim_log s) @
              [ContactDynamics (sim_q s) (sim_v s) (sim_tau s) mu_sim])) = 1"
  shows "sim_body L s =
     (let a = contactDynamics_ret L (calls (sim_log s) @
                [ContactDynamics (sim_q s) (sim_v s) (sim_tau s) mu_sim]);
          v' = map (\<lambda>v. fadd v (fmul (hd a) dt)) (sim_v s);
          q' = integrate_ret L (calls (sim_log s) @
                [ContactDynamics (sim_q s) (sim_v s) (sim_tau s) mu_sim,
                 Integrate (sim_q s) (map (\<lambda>v. fmul v dt) v')])
      in (None, s\<lparr>sim_q := q', sim_v := v', sim_t := fadd (sim_t s) dt,
            sim_log := sim_log s @
              [(153, ContactDynamics (sim_q s) (sim_v s) (sim_tau s) mu_sim),
               (155, Integrate (sim_q s) (map (\<lambda>v. fmul v dt) v')),
               (156, Display q'),
               (157, Sleep dt)]\<rparr>))"
proof -
  let ?a = "contactDynamics_ret L (calls (sim_log s) @
              [ContactDynamics (sim_q s) (sim_v s) (sim_tau s) mu_sim])"
  have l: "length (np_mul_scalar ?a dt) = 1" using assms by (simp add: np_mul_scalar_def)
  have "?a \<noteq> []" using assms by auto
  then have h: "hd (np_mul_scalar ?a dt) = fmul (hd ?a) dt"
    by (simp add: np_mul_scalar_def hd_map)
  have "np_inplace fadd (sim_v s) (np_mul_scalar ?a dt) =
      Inr (map (\<lambda>v. fadd v (fmul (hd ?a) dt)) (sim_v s))"
    using np_inplace_broadcast[OF l, of fadd "sim_v s"] by (simp only: h)
  then show ?thesis
    by (simp add: sim_body_def Let_def emit_def calls_def np_mul_scalar_def)
qed

lemma sim_body_raises:
  assumes "length (contactDynamics_ret L (calls (sim_log s) @
              [ContactDynamics (sim_q s) (sim_v s) (sim_tau s) mu_sim])) \<noteq> length (sim_v s)"
    and "length (contactDynamics_ret L (calls (sim_log s) @
              [ContactDynamics (sim_q s) (sim_v s) (sim_tau s) mu_sim])) \<noteq> 1"
  shows "sim_body L s = (Some ValueError, s\<lparr>sim_log := sim_log s @
              [(153, ContactDynamics (sim_q s) (sim_v s) (sim_tau s) mu_sim)]\<rparr>)"
  using assms
  by (simp add: sim_body_def Let_def emit_def calls_def np_inplace_def np_mul_scalar_def)

text \<open>
  Claim C7. A pass through the simulation loop is a semi-implicit Euler step of size \<open>dt\<close>,
  the double written \<^verbatim>\<open>5e-3\<close>. With \<open>a\<close> the acceleration that \<^verbatim>\<open>contactDynamics\<close>
  returned for the old \<open>q\<close> and \<open>v\<close>, the velocity is advanced first, in place, to
  \<open>v' = v + a * dt\<close>, entry by entry (an \<open>a\<close> of length 1 is broadcast); the configuration
  is then what \<^verbatim>\<open>integrate\<close> returns for the old \<open>q\<close> and \<open>v' * dt\<close>, the velocity already
  advanced; the new configuration is displayed after that, and the pass ends with the sleep.
  The pass raises \<^verbatim>\<open>ValueError\<close>, after the call of line 153 and with \<open>q\<close> and \<open>v\<close>
  unchanged, exactly when \<open>a\<close> has neither the length of \<open>v\<close> nor length 1.
\<close>

theorem sim_body_semi_implicit_euler:
  "let a = contactDynamics_ret L (calls (sim_log s) @
             [ContactDynamics (sim_q s) (sim_v s) (sim_tau s) mu_sim]);
       v' = (if length a = length (sim_v s)
             then map2 (\<lambda>v a. fadd v (fmul a dt)) (sim_v s) a
             else map (\<lambda>v. fadd v (fmul (hd a) dt)) (sim_v s));
       q' = integrate_ret L (calls (sim_log s) @
             [ContactDynamics (sim_q s) (sim_v s) (sim_tau s) mu_sim,
              Integrate (sim_q s) (map (\<lambda>v. fmul v dt) v')])
   in dt = Fin (5764607523034235 / 2 ^ 60)
    \<and> sim_body L s =
       (if length a = length (sim_v s) \<or> length a = 1
        then (None, s\<lparr>sim_q := q', sim_v := v', sim_t := fadd (sim_t s) dt,
                sim_log := sim_log s @
                  [(153, ContactDynamics (sim_q s) (sim_v s) (sim_tau s) mu_sim),
                   (155, Integrate (sim_q s) (map (\<lambda>v. fmul v dt) v')),
                   (156, Display q'),
                   (157, Sleep dt)]\<rparr>)
        else (Some ValueError, s\<lparr>sim_log := sim_log s @
                  [(153, ContactDynamics (sim_q s) (sim_v s) (sim_tau s) mu_sim)]\<rparr>))"
proof -
  let ?a = "contactDynamics_ret L (calls (sim_log s) @
              [ContactDynamics (sim_q s) (sim_v s) (sim_tau s) mu_sim])"
  consider (same) "length ?a = length (sim_v s)"
    | (one) "length ?a \<noteq> length (sim_v s)" "length ?a = 1"
    | (bad) "length ?a \<noteq> length (sim_v s)" "length ?a \<noteq> 1" by blast
  then show ?thesis
  proof cases
    case same
    then show ?thesis using sim_body_same_length[OF same] dt_val by (simp add: Let_def)
  next
    case one
    then show ?thesis using sim_body_broadcast[OF one(2)] dt_val by (simp add: Let_def)
  next
    case bad
    then show ?thesis using sim_body_raises[OF bad] dt_val by (simp add: Let_def)
  qed
qed

lemma round_double_dt:
  "round_double (5764607523034235 / 2 ^ 60) = Fin (5764607523034235 / 2 ^ 60)"
proof -
  have "round_double (5 / 1000) = Fin (5764607523034235 / 2 ^ 60)"
    using dt_val by (simp add: dt_def py_float_def)
  then show ?thesis by (rule round_double_idem)
qed

lemma round_double_dt_dt:
  "round_double (5764607523034235 / 2 ^ 60 * (5764607523034235 / 2 ^ 60)) =
     Fin (7378697629483821 / 2 ^ 68)"
proof -
  have "round_double (5764607523034235 / 2 ^ 60 * (5764607523034235 / 2 ^ 60)) =
      Fin (of_int 7378697629483821 * 2 powi (- 16 - 52))"
    by (rule round_double_eqI) (simp_all add: power_int_minus field_simps)
  then show ?thesis by (simp add: power_int_minus field_simps)
qed

lemma round_double_quarter_dt_dt:
  "round_double (1 / 4 + 7378697629483821 / 2 ^ 68) = Fin (4504049987333233 / 2 ^ 54)"
proof -
  have "round_double (1 / 4 + 7378697629483821 / 2 ^ 68) =
      Fin (of_int 4504049987333233 * 2 powi (- 2 - 52))"
    by (rule round_double_eqI) (simp_all add: power_int_minus field_simps)
  then show ?thesis by (simp add: power_int_minus field_simps)
qed

lemma kick_lib_sel:
  "contactDynamics_ret kick_lib h = [Fin 1]"
  "integrate_ret kick_lib h = (case last h of Integrate q v \<Rightarrow> map2 fadd q v | _ \<Rightarrow> [])"
  by (simp_all add: kick_lib_def toy_lib_def)

lemma kick_steps:
  "fmul (Fin 1) dt = dt"
  "fadd (Fin 0) dt = dt"
  "fmul dt dt = Fin (7378697629483821 / 2 ^ 68)"
  "fadd (Fin (1 / 4)) (Fin (7378697629483821 / 2 ^ 68)) = Fin (4504049987333233 / 2 ^ 54)"
  using round_double_dt round_double_dt_dt round_double_quarter_dt_dt
  by (simp_all add: dt_val)

theorem sim_body_semi_implicit_euler_witness:
  "sim_q kick_state = [Fin (1 / 4)] \<and> sim_v kick_state = [Fin 0]
   \<and> contactDynamics_ret kick_lib
       [ContactDynamics (sim_q kick_state) (sim_v kick_state) (sim_tau kick_state) mu_sim] = [Fin 1]
   \<and> sim_body kick_lib kick_state =
      (None, \<lparr>sim_q = [Fin (4504049987333233 / 2 ^ 54)],
              sim_v = [Fin (5764607523034235 / 2 ^ 60)],
              sim_tau = [Fin 0],
              sim_t = Fin (5764607523034235 / 2 ^ 60),
              sim_log =
                [(153, ContactDynamics [Fin (1 / 4)] [Fin 0] [Fin 0] mu_sim),
                 (155, Integrate [Fin (1 / 4)] [Fin (7378697629483821 / 2 ^ 68)]),
                 (156, Display [Fin (4504049987333233 / 2 ^ 54)]),
                 (157, Sleep (Fin (5764607523034235 / 2 ^ 60)))]\<rparr>)"
proof -
  note e = sim_body_semi_implicit_euler[of kick_lib kick_state, unfolded Let_def, THEN conjunct2]
  have h: "sim_body kick_lib kick_state =
      (None, \<lparr>sim_q = [Fin (4504049987333233 / 2 ^ 54)], sim_v = [dt], sim_tau = [Fin 0],
              sim_t = dt,
              sim_log =
                [(153, ContactDynamics [Fin (1 / 4)] [Fin 0] [Fin 0] mu_sim),
                 (155, Integrate [Fin (1 / 4)] [Fin (7378697629483821 / 2 ^ 68)]),
                 (156, Display [Fin (4504049987333233 / 2 ^ 54)]),
                 (157, Sleep dt)]\<rparr>)"
    using e round_double_quarter_dt_dt
    by (simp add: kick_lib_sel kick_state_def calls_def kick_steps(1,2,3))
  show ?thesis using h by (simp add: dt_val kick_lib_sel kick_state_def)
qed

section \<open>What the loops write to the log\<close>

lemma count_line_append [simp]: "count_line l (xs @ ys) = count_line l xs + count_line l ys"
  by (simp add: count_line_def)

lemma count_line_Nil [simp]: "count_line l [] = 0"
  by (simp add: count_line_def)

lemma count_line_Cons [simp]: "count_line l (e # tr) = (if fst e = l then 1 else 0) + count_line l tr"
  by (simp add: count_line_def)

lemmas ik_defs = ik_body_def Let_def emit_def ik_constraint_value_def ik_measured_def ik_J_def
  calls_def

lemma ik_step_log:
  assumes "ik_step L cd cv s = (r, s')"
  shows "r \<noteq> Break \<and> (\<exists>ext. ik_log s' = ik_log s @ ext \<and> list_all ik_entry ext
     \<and> count_line 114 ext = 0 \<and> count_line 115 ext = 0 \<and> count_line 122 ext = 0
     \<and> count_line 127 ext \<le> 1 \<and> (r = Continue \<longrightarrow> count_line 127 ext = 1))"
proof (cases "np_binop fsub (np_neg cv) (np_mul_scalar (ik_y s) mu)")
  case (Inl e)
  then have "ik_step L cd cv s =
      (Raised e, s\<lparr>ik_log := ik_log s @ [(124, Print_value ''constraint_value:'' (np_norm2 L cv))]\<rparr>)"
    by (simp add: ik_step_def Let_def emit_def)
  then have "r = Raised e"
    "ik_log s' = ik_log s @ [(124, Print_value ''constraint_value:'' (np_norm2 L cv))]"
    using assms by auto
  then show ?thesis
    by (intro conjI exI[of _ "[(124, Print_value ''constraint_value:'' (np_norm2 L cv))]"]) simp_all
next
  case (Inr rr)
  define tr4 where "tr4 = ik_log s @ [(124, Print_value ''constraint_value:'' (np_norm2 L cv))]"
  define rhs where "rhs = rr @ np_zeros (model_nv L (calls tr4))"
  define dz where "dz = solve_ret L (calls (tr4 @ [(127, Kkt_solve rhs)]))"
  define ext :: log where "ext = [(124, Print_value ''constraint_value:'' (np_norm2 L cv)),
     (127, Kkt_solve rhs), (132, Integrate (ik_q s) (np_scalar_mul (fneg alpha) (drop cd dz)))]"
  define q' where "q' = integrate_ret L (calls (ik_log s @ ext))"
  show ?thesis
  proof (cases "dual_update (ik_y s) (take cd dz)")
    case (Inl e)
    then have "ik_step L cd cv s = (Raised e, \<lparr>ik_q = q', ik_y = ik_y s, ik_log = ik_log s @ ext\<rparr>)"
      using Inr by (simp add: ik_step_def Let_def emit_def tr4_def rhs_def dz_def ext_def q'_def)
    then have "r = Raised e" "ik_log s' = ik_log s @ ext" using assms by auto
    then show ?thesis by (intro conjI exI[of _ ext]) (simp_all add: ext_def)
  next
    case (Inr y')
    then have "ik_step L cd cv s = (Continue, \<lparr>ik_q = q', ik_y = y', ik_log = ik_log s @ ext\<rparr>)"
      using \<open>np_binop fsub (np_neg cv) (np_mul_scalar (ik_y s) mu) = Inr rr\<close>
      by (simp add: ik_step_def Let_def emit_def tr4_def rhs_def dz_def ext_def q'_def)
    then have "r = Continue" "ik_log s' = ik_log s @ ext" using assms by auto
    then show ?thesis by (intro conjI exI[of _ ext]) (simp_all add: ext_def)
  qed
qed

lemma ik_body_raise_primal:
  assumes "primal_feas (ik_constraint_value L s) = Inl e"
  shows "ik_body L cm cd s = (Raised e, s\<lparr>ik_log := ik_measured cm s\<rparr>)"
  using assms by (simp add: ik_defs)

lemma ik_body_raise_dual:
  assumes "primal_feas (ik_constraint_value L s) = Inr p"
    and "dual_feas L (ik_J L cm s) (ik_constraint_value L s) (ik_y s) = Inl e"
  shows "ik_body L cm cd s = (Raised e, s\<lparr>ik_log := ik_measured cm s\<rparr>)"
  using assms by (simp add: ik_defs)

lemma ik_body_break:
  assumes "primal_feas (ik_constraint_value L s) = Inr p"
    and "dual_feas L (ik_J L cm s) (ik_constraint_value L s) (ik_y s) = Inr d"
    and "flt p eps \<and> flt d eps"
  shows "ik_body L cm cd s =
    (Break, s\<lparr>ik_log := ik_measured cm s @ [(122, Print ''Convergence achieved'')]\<rparr>)"
  using assms by (simp add: ik_defs)

lemma ik_body_step:
  assumes "primal_feas (ik_constraint_value L s) = Inr p"
    and "dual_feas L (ik_J L cm s) (ik_constraint_value L s) (ik_y s) = Inr d"
    and "\<not> (flt p eps \<and> flt d eps)"
  shows "ik_body L cm cd s =
     ik_step L cd (ik_constraint_value L s) (s\<lparr>ik_log := ik_measured cm s\<rparr>)"
  using assms by (auto simp: ik_defs)

lemma ik_body_cases:
  obtains (raised) e where "ik_body L cm cd s = (Raised e, s\<lparr>ik_log := ik_measured cm s\<rparr>)"
      and "\<not> ik_converged L cm s"
    | (break) "ik_body L cm cd s =
        (Break, s\<lparr>ik_log := ik_measured cm s @ [(122, Print ''Convergence achieved'')]\<rparr>)"
      and "ik_converged L cm s"
    | (step) "ik_body L cm cd s =
        ik_step L cd (ik_constraint_value L s) (s\<lparr>ik_log := ik_measured cm s\<rparr>)"
      and "\<not> ik_converged L cm s"
proof (cases "primal_feas (ik_constraint_value L s)")
  case (Inl e)
  then show ?thesis using ik_body_raise_primal[OF Inl] raised by (simp add: ik_converged_def)
next
  case (Inr p)
  note p = this
  show ?thesis
  proof (cases "dual_feas L (ik_J L cm s) (ik_constraint_value L s) (ik_y s)")
    case (Inl e)
    then show ?thesis using ik_body_raise_dual[OF p Inl] p raised by (simp add: ik_converged_def)
  next
    case (Inr d)
    note d = this
    show ?thesis
    proof (cases "flt p eps \<and> flt d eps")
      case True
      then show ?thesis using ik_body_break[OF p d True] p d break by (simp add: ik_converged_def)
    next
      case False
      then show ?thesis using ik_body_step[OF p d False] p d step by (simp add: ik_converged_def)
    qed
  qed
qed


lemma ik_body_log:
  assumes "ik_body L cm cd s = (r, s')"
  shows "\<exists>ext. ik_log s' = ik_log s @ ext \<and> list_all ik_entry ext
     \<and> count_line 114 ext = 1 \<and> count_line 115 ext = 1
     \<and> count_line 122 ext = (if r = Break then 1 else 0)
     \<and> count_line 127 ext \<le> 1
     \<and> (r = Continue \<longrightarrow> count_line 127 ext = 1)
     \<and> (r = Break \<longrightarrow> count_line 127 ext = 0)"
proof (cases rule: ik_body_cases[of L cm cd s])
  case (raised e)
  then have "r = Raised e" "ik_log s' = ik_measured cm s" using assms by auto
  then show ?thesis unfolding ik_measured_def
    by (intro exI[of _ "[(114, ComputeJointJacobians (ik_q s)), (115, Kkt_compute mu),
      (118, GetFrameJacobian (cm_joint1_id cm) (cm_joint1_placement cm) (cm_reference_frame cm))]"]) simp
next
  case break
  then have "r = Break" "ik_log s' = ik_measured cm s @ [(122, Print ''Convergence achieved'')]"
    using assms by auto
  then show ?thesis unfolding ik_measured_def
    by (intro exI[of _ "[(114, ComputeJointJacobians (ik_q s)), (115, Kkt_compute mu),
      (118, GetFrameJacobian (cm_joint1_id cm) (cm_joint1_placement cm) (cm_reference_frame cm)),
      (122, Print ''Convergence achieved'')]"]) simp
next
  case step
  then have rs: "ik_step L cd (ik_constraint_value L s) (s\<lparr>ik_log := ik_measured cm s\<rparr>) = (r, s')"
    using assms by simp
  from ik_step_log[OF rs] obtain x where x: "r \<noteq> Break" "ik_log s' = ik_measured cm s @ x"
     "list_all ik_entry x" "count_line 114 x = 0" "count_line 115 x = 0" "count_line 122 x = 0"
     "count_line 127 x \<le> 1" "r = Continue \<longrightarrow> count_line 127 x = 1"
    by auto
  then show ?thesis unfolding ik_measured_def
    by (intro exI[of _ "[(114, ComputeJointJacobians (ik_q s)), (115, Kkt_compute mu),
      (118, GetFrameJacobian (cm_joint1_id cm) (cm_joint1_placement cm) (cm_reference_frame cm))] @ x"]) simp
qed

lemma ik_loop_log:
  assumes "ik_loop L cm cd n s = (e, s')"
  shows "\<exists>ext. ik_log s' = ik_log s @ ext \<and> list_all ik_entry ext
     \<and> count_line 114 ext \<le> n \<and> count_line 115 ext = count_line 114 ext
     \<and> count_line 122 ext \<le> 1
     \<and> (e = None \<longrightarrow> count_line 127 ext + count_line 122 ext = count_line 114 ext)
     \<and> (e = None \<longrightarrow> count_line 122 ext = 0 \<longrightarrow> count_line 114 ext = n)"
  using assms
proof (induction n arbitrary: s)
  case 0
  then have "e = None" "s' = s" by simp_all
  then show ?case by (intro exI[of _ "[]"]) simp
next
  case (Suc n)
  obtain r s1 where b: "ik_body L cm cd s = (r, s1)" by (cases "ik_body L cm cd s")
  from ik_body_log[OF b] obtain x1 where x1c: "ik_log s1 = ik_log s @ x1 \<and> list_all ik_entry x1
     \<and> count_line 114 x1 = 1 \<and> count_line 115 x1 = 1
     \<and> count_line 122 x1 = (if r = Break then 1 else 0)
     \<and> count_line 127 x1 \<le> 1
     \<and> (r = Continue \<longrightarrow> count_line 127 x1 = 1)
     \<and> (r = Break \<longrightarrow> count_line 127 x1 = 0)" ..
  then have x1: "ik_log s1 = ik_log s @ x1" "list_all ik_entry x1"
     "count_line 114 x1 = 1" "count_line 115 x1 = 1"
     "count_line 122 x1 = (if r = Break then 1 else 0)"
     "count_line 127 x1 \<le> 1"
     "r = Continue \<longrightarrow> count_line 127 x1 = 1"
     "r = Break \<longrightarrow> count_line 127 x1 = 0"
    by simp_all
  show ?case
  proof (cases r)
    case (Raised err)
    then have "e = Some err" "s' = s1" using Suc.prems b by auto
    moreover have "count_line 122 x1 = 0" using x1(5) Raised by simp
    ultimately show ?thesis using x1(1-4)
      by (intro exI[of _ x1] conjI) simp_all
  next
    case Break
    then have es: "e = None" "s' = s1" using Suc.prems b by auto
    have "count_line 122 x1 = 1" "count_line 127 x1 = 0" using x1(5,8) Break by simp_all
    then show ?thesis using es x1(1-4)
      by (intro exI[of _ x1] conjI) simp_all
  next
    case Continue
    then have "ik_loop L cm cd n s1 = (e, s')" using Suc.prems b by auto
    from Suc.IH[OF this] obtain x2 where x2c: "ik_log s' = ik_log s1 @ x2 \<and> list_all ik_entry x2
      \<and> count_line 114 x2 \<le> n \<and> count_line 115 x2 = count_line 114 x2
      \<and> count_line 122 x2 \<le> 1
      \<and> (e = None \<longrightarrow> count_line 127 x2 + count_line 122 x2 = count_line 114 x2)
      \<and> (e = None \<longrightarrow> count_line 122 x2 = 0 \<longrightarrow> count_line 114 x2 = n)" ..
    then have x2: "ik_log s' = ik_log s1 @ x2" "list_all ik_entry x2"
      "count_line 114 x2 \<le> n" "count_line 115 x2 = count_line 114 x2"
      "count_line 122 x2 \<le> 1"
      "e = None \<longrightarrow> count_line 127 x2 + count_line 122 x2 = count_line 114 x2"
      "e = None \<longrightarrow> count_line 122 x2 = 0 \<longrightarrow> count_line 114 x2 = n"
      by simp_all
    have c: "count_line 122 x1 = 0" "count_line 127 x1 = 1" using x1(5,7) Continue by simp_all
    have 1: "ik_log s' = ik_log s @ x1 @ x2" using x1(1) x2(1) by simp
    have 2: "list_all ik_entry (x1 @ x2)" using x1(2) x2(2) by simp
    have 3: "count_line 114 (x1 @ x2) \<le> Suc n" using x1(3) x2(3) by simp
    have 4: "count_line 115 (x1 @ x2) = count_line 114 (x1 @ x2)" using x1(3,4) x2(4) by simp
    have 5: "count_line 122 (x1 @ x2) \<le> 1" using c(1) x2(5) by simp
    have 6: "e = None \<longrightarrow> count_line 127 (x1 @ x2) + count_line 122 (x1 @ x2) = count_line 114 (x1 @ x2)"
      using c x1(3) x2(6) by simp
    have 7: "e = None \<longrightarrow> count_line 122 (x1 @ x2) = 0 \<longrightarrow> count_line 114 (x1 @ x2) = Suc n"
      using c x1(3) x2(7) by simp
    show ?thesis
      by (intro exI[of _ "x1 @ x2"] conjI) (fact 1 2 3 4 5 6 7)+
  qed
qed

lemma sim_body_log:
  assumes "sim_body L s = (e, s')"
  shows "\<exists>ext. sim_log s' = sim_log s @ ext \<and> list_all sim_entry ext"
proof (cases "np_inplace fadd (sim_v s) (np_mul_scalar (contactDynamics_ret L
     (calls (sim_log s) @ [ContactDynamics (sim_q s) (sim_v s) (sim_tau s) mu_sim])) dt)")
  case (Inl err)
  then have "sim_body L s = (Some err, s\<lparr>sim_log := sim_log s @
      [(153, ContactDynamics (sim_q s) (sim_v s) (sim_tau s) mu_sim)]\<rparr>)"
    by (simp add: sim_body_def Let_def emit_def calls_def)
  then have "sim_log s' = sim_log s @ [(153, ContactDynamics (sim_q s) (sim_v s) (sim_tau s) mu_sim)]"
    using assms by auto
  then show ?thesis
    by (intro exI[of _ "[(153, ContactDynamics (sim_q s) (sim_v s) (sim_tau s) mu_sim)]"]) simp
next
  case (Inr v')
  define q' where "q' = integrate_ret L (calls (sim_log s) @
      [ContactDynamics (sim_q s) (sim_v s) (sim_tau s) mu_sim, Integrate (sim_q s) (np_mul_scalar v' dt)])"
  define ext :: log where "ext = [(153, ContactDynamics (sim_q s) (sim_v s) (sim_tau s) mu_sim),
      (155, Integrate (sim_q s) (np_mul_scalar v' dt)), (156, Display q'), (157, Sleep dt)]"
  have "sim_body L s = (None, s\<lparr>sim_q := q', sim_v := v', sim_t := fadd (sim_t s) dt,
      sim_log := sim_log s @ ext\<rparr>)"
    using Inr by (simp add: sim_body_def Let_def emit_def calls_def q'_def ext_def)
  then have "sim_log s' = sim_log s @ ext" using assms by auto
  then show ?thesis by (intro exI[of _ ext]) (simp add: ext_def)
qed

lemma sim_loop_log:
  assumes "sim_loop L s = Some r"
  shows "\<exists>ext. sim_log (snd r) = sim_log s @ ext \<and> list_all sim_entry ext"
proof (rule sim_loop.raw_induct[where P = "\<lambda>L s r. \<exists>ext. sim_log (snd r) = sim_log s @ ext \<and> list_all sim_entry ext", OF _ assms])
  fix loop :: "lib \<Rightarrow> sim_state \<Rightarrow> (error option \<times> sim_state) option" and L s r
  assume IH: "\<And>L s r. loop L s = Some r \<Longrightarrow> \<exists>ext. sim_log (snd r) = sim_log s @ ext \<and> list_all sim_entry ext"
    and eq: "(if fle (sim_t s) T_sim
      then case sim_body L s of (None, s') \<Rightarrow> loop L s'
           | (Some e, s') \<Rightarrow> Some (Some e, s')
      else Some (None, s)) = Some r"
  show "\<exists>ext. sim_log (snd r) = sim_log s @ ext \<and> list_all sim_entry ext"
  proof (cases "fle (sim_t s) T_sim")
    case False
    then have "snd r = s" using eq by auto
    then show ?thesis by (intro exI[of _ "[]"]) simp
  next
    case True
    obtain e1 s1 where b: "sim_body L s = (e1, s1)" by (cases "sim_body L s")
    from sim_body_log[OF b] obtain x1 where x1: "sim_log s1 = sim_log s @ x1 \<and> list_all sim_entry x1" ..
    show ?thesis
    proof (cases e1)
      case (Some err)
      then have "snd r = s1" using eq True b by auto
      then show ?thesis using x1 by (intro exI[of _ x1]) simp
    next
      case None
      then have "loop L s1 = Some r" using eq True b by simp
      from IH[OF this] obtain x2 where x2: "sim_log (snd r) = sim_log s1 @ x2 \<and> list_all sim_entry x2" ..
      show ?thesis using x1 x2 by (intro exI[of _ "x1 @ x2"]) simp
    qed
  qed
qed

section \<open>The simulation loop ends\<close>

lemma sim_body_t:
  assumes "sim_body L s = (None, s')"
  shows "sim_t s' = fadd (sim_t s) dt"
  using assms by (auto simp: sim_body_def Let_def split: sum.splits)

lemma sim_loop_unroll:
  assumes "\<forall>k<n. fle (clock k (sim_t s)) T_sim" and "\<not> fle (clock n (sim_t s)) T_sim"
  shows "sim_loop L s = Some (sim_iter L n s)"
  using assms
proof (induction n arbitrary: s)
  case 0
  then show ?case by (subst sim_loop.simps) simp
next
  case (Suc n)
  have g: "fle (sim_t s) T_sim" using Suc.prems(1)[rule_format, of 0] by simp
  obtain e1 s1 where b: "sim_body L s = (e1, s1)" by (cases "sim_body L s")
  show ?case
  proof (cases e1)
    case (Some err)
    then show ?thesis using g b by (subst sim_loop.simps) simp
  next
    case None
    have t1: "sim_t s1 = fadd (sim_t s) dt" using sim_body_t b None by simp
    have a: "\<forall>k<n. fle (clock k (sim_t s1)) T_sim"
    proof (intro allI impI)
      fix k assume "k < n"
      then have "Suc k < Suc n" by simp
      then have "fle (clock (Suc k) (sim_t s)) T_sim" using Suc.prems(1) by blast
      then show "fle (clock k (sim_t s1)) T_sim" by (simp add: t1)
    qed
    have c: "\<not> fle (clock n (sim_t s1)) T_sim" using Suc.prems(2) by (simp add: t1)
    have "sim_loop L s1 = Some (sim_iter L n s1)" using Suc.IH[OF a c] .
    then show ?thesis using g b None by (subst sim_loop.simps) simp
  qed
qed

lemma clock_step:
  assumes "0 \<le> a" and "a \<le> 100001"
  shows "\<exists>a'. fadd (Fin a) dt = Fin a' \<and> \<bar>a' - (a + dt_rat)\<bar> \<le> 2 powi (- 37)"
proof -
  have "\<bar>a + dt_rat\<bar> < 2 powi (16 + 1)" using assms by (simp add: dt_rat_def)
  from round_double_bounded[OF this] show ?thesis
    by (simp add: dt_val dt_rat_def)
qed

lemma clock_Suc: "clock (Suc k) t = fadd (clock k t) dt"
  by (induction k arbitrary: t) simp_all

lemma clock_bounds:
  assumes "k \<le> 20000001"
  shows "\<exists>a. clock k (Fin 0) = Fin a
     \<and> of_nat k * (dt_rat - 2 powi (- 37)) \<le> a \<and> a \<le> of_nat k * (dt_rat + 2 powi (- 37))"
  using assms
proof (induction k)
  case 0
  then show ?case by simp
next
  case (Suc k)
  then obtain a where a: "clock k (Fin 0) = Fin a"
     "of_nat k * (dt_rat - 2 powi (- 37)) \<le> a" "a \<le> of_nat k * (dt_rat + 2 powi (- 37))"
    by auto
  have k: "(of_nat k :: rat) \<le> 20000000" using Suc.prems by simp
  have p: "0 < dt_rat - 2 powi (- 37)" "0 < dt_rat + 2 powi (- 37)" by (simp_all add: dt_rat_def)
  have a0: "0 \<le> a" using a(2) p(1) by (meson mult_nonneg_nonneg of_nat_0_le_iff less_imp_le order_trans)
  have "of_nat k * (dt_rat + 2 powi (- 37)) \<le> 20000000 * (dt_rat + 2 powi (- 37))"
    using k p(2) by (intro mult_right_mono) auto
  also have "\<dots> \<le> 100001" by (simp add: dt_rat_def)
  finally have a1: "a \<le> 100001" using a(3) by simp
  from clock_step[OF a0 a1] obtain a' where a': "fadd (Fin a) dt = Fin a'"
      "\<bar>a' - (a + dt_rat)\<bar> \<le> 2 powi (- 37)" by blast
  have "clock (Suc k) (Fin 0) = Fin a'" using a(1) a'(1) by (simp only: clock_Suc)
  moreover have "of_nat (Suc k) * (dt_rat - 2 powi (- 37)) \<le> a'"
  proof -
    have "of_nat (Suc k) * (dt_rat - 2 powi (- 37))
        = of_nat k * (dt_rat - 2 powi (- 37)) + (dt_rat - 2 powi (- 37))"
      by (simp add: algebra_simps)
    moreover have "a + dt_rat - 2 powi (- 37) \<le> a'" using a'(2) by linarith
    ultimately show ?thesis using a(2) by linarith
  qed
  moreover have "a' \<le> of_nat (Suc k) * (dt_rat + 2 powi (- 37))"
  proof -
    have "of_nat (Suc k) * (dt_rat + 2 powi (- 37))
        = of_nat k * (dt_rat + 2 powi (- 37)) + (dt_rat + 2 powi (- 37))"
      by (simp add: algebra_simps)
    moreover have "a' \<le> a + dt_rat + 2 powi (- 37)" using a'(2) by linarith
    ultimately show ?thesis using a(3) by linarith
  qed
  ultimately show ?case by blast
qed


lemma clock_running:
  assumes "k < 20000000"
  shows "fle (clock k (Fin 0)) T_sim"
proof -
  have "k \<le> 20000001" using assms by simp
  from clock_bounds[OF this] obtain a where a: "clock k (Fin 0) = Fin a"
    "a \<le> of_nat k * (dt_rat + 2 powi (- 37))" by blast
  have "(of_nat k :: rat) \<le> 19999999" using assms by simp
  moreover have "0 < dt_rat + 2 powi (- 37)" by (simp add: dt_rat_def)
  ultimately have "of_nat k * (dt_rat + 2 powi (- 37)) \<le> 19999999 * (dt_rat + 2 powi (- 37))"
    by (intro mult_right_mono) auto
  also have "\<dots> \<le> 100000" by (simp add: dt_rat_def)
  finally have "a \<le> 100000" using a(2) by simp
  then show ?thesis by (simp add: a(1) T_sim_def)
qed

lemma clock_stopped: "\<not> fle (clock 20000001 (Fin 0)) T_sim"
proof -
  from clock_bounds[of 20000001] obtain a where a: "clock 20000001 (Fin 0) = Fin a"
    "of_nat 20000001 * (dt_rat - 2 powi (- 37)) \<le> a" by blast
  have "(100000::rat) < of_nat 20000001 * (dt_rat - 2 powi (- 37))" by (simp add: dt_rat_def)
  then have "100000 < a" using a(2) by simp
  then show ?thesis by (simp add: a(1) T_sim_def)
qed

lemma sim_loop_passes:
  assumes "sim_t s = Fin 0"
  shows "\<exists>n. 20000000 \<le> n \<and> n \<le> 20000001 \<and> sim_loop L s = Some (sim_iter L n s)"
proof (cases "fle (clock 20000000 (Fin 0)) T_sim")
  case True
  have "\<forall>k<20000001. fle (clock k (sim_t s)) T_sim"
  proof (intro allI impI)
    fix k :: nat assume "k < 20000001"
    then have "k < 20000000 \<or> k = 20000000" by linarith
    then show "fle (clock k (sim_t s)) T_sim" using clock_running True assms by auto
  qed
  moreover have "\<not> fle (clock 20000001 (sim_t s)) T_sim" using clock_stopped assms by simp
  ultimately have "sim_loop L s = Some (sim_iter L 20000001 s)" by (rule sim_loop_unroll)
  then show ?thesis by (intro exI[of _ 20000001]) simp
next
  case False
  have "\<forall>k<20000000. fle (clock k (sim_t s)) T_sim" using clock_running assms by simp
  moreover have "\<not> fle (clock 20000000 (sim_t s)) T_sim" using False assms by simp
  ultimately have "sim_loop L s = Some (sim_iter L 20000000 s)" by (rule sim_loop_unroll)
  then show ?thesis by (intro exI[of _ 20000000]) simp
qed

text \<open>
  Claim C4. The loop of line 152, entered with \<^verbatim>\<open>t = 0\<close>, ends: it makes 20000000 or
  20000001 passes, that is \<open>T_sim / dt\<close> up to the rounding of the 20 million additions
  \<^verbatim>\<open>t += dt\<close>, unless an exception ends it before. This holds for whatever the library
  returns.
\<close>

theorem sim_loop_terminates:
  assumes "sim_t s = Fin 0"
  shows "\<exists>n. 20000000 \<le> n \<and> n \<le> 20000001 \<and> sim_loop L s = Some (sim_iter L n s)"
  using assms by (rule sim_loop_passes)

theorem sim_loop_terminates_witness:
  "sim_t rest_state = Fin 0 \<and>
   (\<exists>n. 20000000 \<le> n \<and> n \<le> 20000001 \<and>
        sim_loop toy_lib rest_state = Some (sim_iter toy_lib n rest_state))"
proof -
  have h: "sim_t rest_state = Fin 0" by (simp add: rest_state_def)
  show ?thesis using sim_loop_terminates[OF h, of toy_lib] h by blast
qed

lemma sim_setup_t: "sim_t (sim_setup L s) = Fin 0"
  by (simp add: sim_setup_def Let_def)

lemma script_returns: "\<exists>r. script L = Some r"
proof -
  obtain cm cd s0 where p: "preamble L = (cm, cd, s0)" by (cases "preamble L")
  obtain e s where i: "ik_loop L cm cd N s0 = (e, s)" by (cases "ik_loop L cm cd N s0")
  show ?thesis
  proof (cases e)
    case (Some err)
    then show ?thesis using p i by (simp add: script_def)
  next
    case None
    from sim_loop_passes[OF sim_setup_t[of L s], of L] obtain n where
      "sim_loop L (sim_setup L s) = Some (sim_iter L n (sim_setup L s))" by blast
    then show ?thesis using p i None by (simp add: script_def)
  qed
qed

section \<open>The dual update\<close>




lemma dual_update_length:
  assumes "dual_update y dy = Inr y'"
  shows "length y' = length y"
  using assms
  by (auto simp: dual_update_def ebind_def np_binop_def np_inplace_def np_neg_def np_scalar_mul_def
      split: if_splits)

lemma round_double_1 [simp]: "round_double 1 = Fin 1"
  using round_double_grid[of 1 0] by simp

lemma round_double_2 [simp]: "round_double 2 = Fin 2"
  using round_double_grid[of 2 0] by simp


lemma toy_lib_sel:
  "addJoint_ret toy_lib h = length (filter is_AddJoint h)"
  "model_nv toy_lib h = length (filter is_AddJoint h)"
  "getWindowID_ret toy_lib h = 0"
  "neutral_ret toy_lib h = np_zeros (length (filter is_AddJoint h))"
  "size_ret toy_lib h = 3"
  "default_reference_frame toy_lib = LOCAL"
  "c1Mc2_translation toy_lib h =
     (if list_ex is_Kkt_solve h then np_zeros 3 else [Fin 1, Fin 0, Fin 0])"
  "getFrameJacobian_ret toy_lib h = replicate 6 (np_zeros (length (filter is_AddJoint h)))"
  "solve_ret toy_lib h = (case last h of Kkt_solve rhs \<Rightarrow> np_zeros (length rhs) | _ \<Rightarrow> [])"
  "integrate_ret toy_lib h = (case last h of Integrate q v \<Rightarrow> map2 fadd q v | _ \<Rightarrow> [])"
  "contactDynamics_ret toy_lib h =
     (case last h of ContactDynamics q v tau m \<Rightarrow> np_zeros (length v) | _ \<Rightarrow> [])"
  "np_dot toy_lib = toy_dot"
  "np_norm2 toy_lib xs = foldl np_maximum (Fin 0) (map fabs xs)"
  by (simp_all add: toy_lib_def)




lemma replicate_3: "replicate 3 x = [x, x, x]"
  by (simp add: numeral_3_eq_3)

lemma np_zeros_3: "np_zeros 3 = [Fin 0, Fin 0, Fin 0]"
  by (simp add: np_zeros_def numeral_3_eq_3)

lemma np_ones_3: "np_ones 3 = [Fin 1, Fin 1, Fin 1]"
  by (simp add: np_ones_def numeral_3_eq_3)




















section \<open>The mechanism\<close>

lemma build_model_log':
  assumes "build_model L tr = ((j1, j2, j3), tr')"
  shows "tr' = tr @ build_log j1 j2 j3"
  using assms by (auto simp: build_model_def Let_def emit_def build_log_def)

lemma setup_visualizer_log':
  assumes "setup_visualizer L tr = (q0, tr')"
  shows "\<exists>w. tr' = tr @ viewer_log w q0"
  using assms by (auto simp: setup_visualizer_def Let_def emit_def viewer_log_def)

lemma ik_setup_log':
  assumes "ik_setup L j3 q0 tr = (cm, cd, s0)"
  shows "cm = constraint_model L j3 \<and> ik_q s0 = q0 \<and> ik_y s0 = np_ones cd
     \<and> (\<exists>M. ik_log s0 = tr @ ik_setup_log cm q0 M)"
  using assms by (auto simp: ik_setup_def Let_def emit_def ik_setup_log_def)

lemma sim_setup_log':
  "\<exists>kd. sim_log (sim_setup L s) = ik_log s @ sim_setup_log (ik_q s) kd"
  by (simp add: sim_setup_def Let_def emit_def sim_setup_log_def)

lemma preamble_log:
  assumes "preamble L = (cm, cd, s0)"
  shows "\<exists>j1 j2 j3 w M. fst (build_model L []) = (j1, j2, j3) \<and> cm = constraint_model L j3
     \<and> ik_y s0 = np_ones cd
     \<and> ik_log s0 = build_log j1 j2 j3 @ viewer_log w (ik_q s0) @ ik_setup_log cm (ik_q s0) M"
proof -
  obtain j1 j2 j3 tr1 where b: "build_model L [] = ((j1, j2, j3), tr1)"
    by (cases "build_model L []") auto
  obtain q0 tr2 where v: "setup_visualizer L tr1 = (q0, tr2)" by (cases "setup_visualizer L tr1")
  have i: "ik_setup L j3 q0 tr2 = (cm, cd, s0)" using assms b v by (simp add: preamble_def)
  have 1: "tr1 = build_log j1 j2 j3" using build_model_log'[OF b] by simp
  obtain w where 2: "tr2 = tr1 @ viewer_log w q0" using setup_visualizer_log'[OF v] by blast
  from ik_setup_log'[OF i] obtain M where 3: "cm = constraint_model L j3" "ik_q s0 = q0"
    "ik_y s0 = np_ones cd" "ik_log s0 = tr2 @ ik_setup_log cm q0 M" by blast
  have 4: "ik_log s0 = build_log j1 j2 j3 @ viewer_log w (ik_q s0) @ ik_setup_log cm (ik_q s0) M"
    using 1 2 3 by simp
  have 5: "fst (build_model L []) = (j1, j2, j3)" using b by simp
  show ?thesis
    by (intro exI[of _ j1] exI[of _ j2] exI[of _ j3] exI[of _ w] exI[of _ M] conjI)
       (fact 5, fact 3(1), fact 3(3), fact 4)
qed


lemma script_log:
  assumes "script L = Some (e, tr)"
  obtains j1 j2 j3 w q0 M ik rest where
    "fst (build_model L []) = (j1, j2, j3)"
    "tr = build_log j1 j2 j3 @ viewer_log w q0 @ ik_setup_log (constraint_model L j3) q0 M @ ik @ rest"
    "list_all ik_entry ik" "count_line 114 ik \<le> N" "count_line 115 ik = count_line 114 ik"
    "count_line 122 ik \<le> 1"
    "e = None \<longrightarrow> count_line 127 ik + count_line 122 ik = count_line 114 ik"
    "e = None \<longrightarrow> count_line 122 ik = 0 \<longrightarrow> count_line 114 ik = N"
    "rest = [] \<or> (\<exists>q kd sim. rest = sim_setup_log q kd @ sim \<and> list_all sim_entry sim)"
    "e = None \<longrightarrow> rest \<noteq> []"
proof -
  obtain cm cd s0 where p: "preamble L = (cm, cd, s0)" by (cases "preamble L")
  from preamble_log[OF p] obtain j1 j2 j3 w M where
    pl: "fst (build_model L []) = (j1, j2, j3)" "cm = constraint_model L j3"
      "ik_log s0 = build_log j1 j2 j3 @ viewer_log w (ik_q s0) @ ik_setup_log cm (ik_q s0) M"
    by blast
  obtain r s1 where i: "ik_loop L cm cd N s0 = (r, s1)" by (cases "ik_loop L cm cd N s0")
  from ik_loop_log[OF i] obtain ik where ikc: "ik_log s1 = ik_log s0 @ ik \<and> list_all ik_entry ik
     \<and> count_line 114 ik \<le> N \<and> count_line 115 ik = count_line 114 ik
     \<and> count_line 122 ik \<le> 1
     \<and> (r = None \<longrightarrow> count_line 127 ik + count_line 122 ik = count_line 114 ik)
     \<and> (r = None \<longrightarrow> count_line 122 ik = 0 \<longrightarrow> count_line 114 ik = N)" ..
  then have ik: "ik_log s1 = ik_log s0 @ ik" "list_all ik_entry ik"
     "count_line 114 ik \<le> N" "count_line 115 ik = count_line 114 ik"
     "count_line 122 ik \<le> 1"
     "r = None \<longrightarrow> count_line 127 ik + count_line 122 ik = count_line 114 ik"
     "r = None \<longrightarrow> count_line 122 ik = 0 \<longrightarrow> count_line 114 ik = N"
    by simp_all
  show thesis
  proof (cases r)
    case (Some err)
    then have "e = Some err" "tr = ik_log s1" using assms p i by (simp_all add: script_def)
    then have 1: "tr = build_log j1 j2 j3 @ viewer_log w (ik_q s0)
        @ ik_setup_log (constraint_model L j3) (ik_q s0) M @ ik @ []"
      and 2: "e = None \<longrightarrow> count_line 127 ik + count_line 122 ik = count_line 114 ik"
      and 3: "e = None \<longrightarrow> count_line 122 ik = 0 \<longrightarrow> count_line 114 ik = N"
      and 4: "e = None \<longrightarrow> ([]::log) \<noteq> []"
      using ik(1) pl(2,3) by simp_all
    show ?thesis
      by (rule that[OF pl(1) 1 ik(2) ik(3) ik(4) ik(5) 2 3 _ 4]) simp
  next
    case None
    then have "map_option (\<lambda>(e, s'). (e, sim_log s')) (sim_loop L (sim_setup L s1)) = Some (e, tr)"
      using assms p i by (simp add: script_def)
    then obtain r2 where l: "sim_loop L (sim_setup L s1) = Some r2" and r2: "(e, tr) = (\<lambda>(e, s'). (e, sim_log s')) r2"
      by auto
    have tr: "tr = sim_log (snd r2)" using r2 by (cases r2) simp
    from sim_loop_log[OF l] obtain sim where
      sim: "sim_log (snd r2) = sim_log (sim_setup L s1) @ sim \<and> list_all sim_entry sim" ..
    from sim_setup_log'[of L s1] obtain kd where
      kd: "sim_log (sim_setup L s1) = ik_log s1 @ sim_setup_log (ik_q s1) kd" ..
    define rest where "rest = sim_setup_log (ik_q s1) kd @ sim"
    have 1: "tr = build_log j1 j2 j3 @ viewer_log w (ik_q s0)
        @ ik_setup_log (constraint_model L j3) (ik_q s0) M @ ik @ rest"
      using tr sim kd ik(1) pl(2,3) by (simp add: rest_def)
    have 2: "e = None \<longrightarrow> count_line 127 ik + count_line 122 ik = count_line 114 ik"
      and 3: "e = None \<longrightarrow> count_line 122 ik = 0 \<longrightarrow> count_line 114 ik = N"
      using ik(6,7) None by simp_all
    have 4: "rest = [] \<or> (\<exists>q kd sim. rest = sim_setup_log q kd @ sim \<and> list_all sim_entry sim)"
      using sim unfolding rest_def by blast
    have 5: "e = None \<longrightarrow> rest \<noteq> []" by (simp add: rest_def sim_setup_log_def)
    show ?thesis
      by (rule that[OF pl(1) 1 ik(2) ik(3) ik(4) ik(5) 2 3 4 5])
  qed
qed


lemma ik_entry_not_construction: "ik_entry x \<Longrightarrow> \<not> is_construction (snd x)"
  by (cases x; cases "snd x") simp_all

lemma sim_entry_not_construction: "sim_entry x \<Longrightarrow> \<not> is_construction (snd x)"
  by (cases x; cases "snd x") simp_all

lemma filter_construction_ik:
  assumes "list_all ik_entry xs"
  shows "filter is_construction (calls xs) = []"
  using assms ik_entry_not_construction by (auto simp: calls_def filter_empty_conv list_all_iff)

lemma filter_construction_sim:
  assumes "list_all sim_entry xs"
  shows "filter is_construction (calls xs) = []"
  using assms sim_entry_not_construction by (auto simp: calls_def filter_empty_conv list_all_iff)

lemma calls_append [simp]: "calls (xs @ ys) = calls xs @ calls ys"
  by (simp add: calls_def)

lemma script_construction:
  assumes "script L = Some (e, tr)" and "fst (build_model L []) = (j1, j2, j3)"
  shows "filter is_construction (calls tr) =
    [AddGeometryObject geom_obj0,
     AddJoint base_joint_id JointModelRY joint1_placement ''link_B1'',
     AddGeometryObject (geom_obj1 j1),
     AddJoint j1 JointModelRY joint2_placement ''link_A2'',
     AddGeometryObject (geom_obj2 j2),
     AddJoint j2 JointModelRY joint3_placement ''link_B2'',
     AddGeometryObject (geom_obj3 j3),
     RigidContactModel_init (constraint_model L j3)]"
proof -
  from script_log[OF assms(1)] obtain k1 k2 k3 w q0 M ik rest where
    h: "fst (build_model L []) = (k1, k2, k3)"
    "tr = build_log k1 k2 k3 @ viewer_log w q0 @ ik_setup_log (constraint_model L k3) q0 M @ ik @ rest"
    "list_all ik_entry ik"
    "rest = [] \<or> (\<exists>q kd sim. rest = sim_setup_log q kd @ sim \<and> list_all sim_entry sim)"
    by metis
  have k: "k1 = j1" "k2 = j2" "k3 = j3" using h(1) assms(2) by simp_all
  have r: "filter is_construction (calls rest) = []"
  proof -
    from h(4) consider "rest = []" | q kd sim where "rest = sim_setup_log q kd @ sim" "list_all sim_entry sim"
      by blast
    then show ?thesis
    proof cases
      case 1 then show ?thesis by (simp add: calls_def)
    next
      case 2
      then show ?thesis using filter_construction_sim[OF 2(2)]
        by (simp add: sim_setup_log_def calls_def)
    qed
  qed
  have "filter is_construction (calls tr) =
      filter is_construction (calls (build_log j1 j2 j3))
    @ filter is_construction (calls (viewer_log w q0))
    @ filter is_construction (calls (ik_setup_log (constraint_model L j3) q0 M))"
    using r filter_construction_ik[OF h(3)] by (simp add: h(2) k)
  then show ?thesis
    by (simp add: build_log_def viewer_log_def ik_setup_log_def calls_def)
qed


lemma length_link_B_val: "length_link_B = Fin (5404319552844595 / 2 ^ 53)"
proof -
  have "round_double (6 / 10) = Fin (of_int 5404319552844595 * 2 powi (- 1 - 52))"
    by (rule round_double_eqI) (simp_all add: power_int_minus field_simps)
  then show ?thesis by (simp add: length_link_B_def py_float_def power_int_minus field_simps)
qed

lemma constraint1_joint1_translation:
  "translation constraint1_joint1_placement = [Fin (5404319552844595 / 2 ^ 53), Fin 0, Fin 0]"
proof -
  have "is_double (5404319552844595 / 2 ^ 53)"
    using round_double_grid[of 5404319552844595 "- 53"]
    by (simp add: is_double_def power_int_minus field_simps)
  then have "fmul (Fin 1) length_link_B = Fin (5404319552844595 / 2 ^ 53)"
    by (simp add: length_link_B_val is_double_def)
  then show ?thesis
    by (simp add: constraint1_joint1_placement_def np_mul_scalar_def XAxis_def length_link_B_val)
qed

lemma round_double_neg_1 [simp]: "round_double (- 1) = Fin (- 1)"
  using round_double_grid[of "- 1" 0] by simp

lemma round_double_neg_half: "round_double (- 1 / 2) = Fin (- 1 / 2)"
  using round_double_grid[of "- 1" "- 1"] by (simp add: power_int_minus)

lemma constraint1_joint2_translation:
  "translation constraint1_joint2_placement = [Fin (- 1 / 2), Fin 0, Fin 0]"
  using round_double_neg_half
  by (simp add: constraint1_joint2_placement_def np_mul_scalar_def np_div_scalar_def np_neg_def
      XAxis_def length_link_A_def)

lemma constraint_model_val:
  "constraint_model L j3 =
     \<lparr>cm_type = CONTACT_3D, cm_joint1_id = j3,
      cm_joint1_placement =
        \<lparr>rotation = Identity3, translation = [Fin (5404319552844595 / 2 ^ 53), Fin 0, Fin 0]\<rparr>,
      cm_joint2_id = 0,
      cm_joint2_placement = \<lparr>rotation = Identity3, translation = [Fin (- 1 / 2), Fin 0, Fin 0]\<rparr>,
      cm_reference_frame = default_reference_frame L\<rparr>"
proof -
  have 1: "constraint1_joint1_placement =
      \<lparr>rotation = Identity3, translation = [Fin (5404319552844595 / 2 ^ 53), Fin 0, Fin 0]\<rparr>"
    using constraint1_joint1_translation
    by (simp add: constraint1_joint1_placement_def SE3_Identity_def)
  have 2: "constraint1_joint2_placement =
      \<lparr>rotation = Identity3, translation = [Fin (- 1 / 2), Fin 0, Fin 0]\<rparr>"
    using constraint1_joint2_translation
    by (simp add: constraint1_joint2_placement_def SE3_Identity_def)
  show ?thesis by (simp add: constraint_model_def 1 2 base_joint_id_def)
qed

lemma geometry_objects_val:
  "map (\<lambda>g. (go_name g, go_parent_joint g, go_geometry g))
       [geom_obj0, geom_obj1 j1, geom_obj2 j2, geom_obj3 j3] =
     [(''link_A1'', 0, Capsule radius length_link_A), (''link_B1'', j1, Capsule radius length_link_B),
      (''link_A2'', j2, Capsule radius length_link_A), (''link_B2'', j3, Capsule radius length_link_B)]"
  by (simp add: geom_obj0_def geom_obj1_def geom_obj2_def geom_obj3_def base_joint_id_def
      shape_link_A_def shape_link_B_def)

text \<open>
  Claim C5. For every behaviour of the library the script returns, and over the whole run the
  calls that put something into the mechanism are, in this order: the capsule \<open>link_A1\<close> on
  the base joint 0; three joints, each a \<open>JointModelRY\<close>, the first on the base, the second on
  the first, the third on the second, with the capsules \<open>link_B1\<close>, \<open>link_A2\<close> and
  \<open>link_B2\<close> on them; and one contact constraint of type \<open>CONTACT_3D\<close> between the third
  joint, at \<open>(0.6, 0, 0)\<close>, and the base joint, at \<open>(-0.5, 0, 0)\<close>.
\<close>

theorem four_bar_closed_chain:
  "\<exists>e tr j1 j2 j3. script L = Some (e, tr) \<and> fst (build_model L []) = (j1, j2, j3)
     \<and> filter is_construction (calls tr) =
         [AddGeometryObject geom_obj0,
          AddJoint 0 JointModelRY joint1_placement ''link_B1'',
          AddGeometryObject (geom_obj1 j1),
          AddJoint j1 JointModelRY joint2_placement ''link_A2'',
          AddGeometryObject (geom_obj2 j2),
          AddJoint j2 JointModelRY joint3_placement ''link_B2'',
          AddGeometryObject (geom_obj3 j3),
          RigidContactModel_init (constraint_model L j3)]
     \<and> map (\<lambda>g. (go_name g, go_parent_joint g, go_geometry g))
           [geom_obj0, geom_obj1 j1, geom_obj2 j2, geom_obj3 j3] =
         [(''link_A1'', 0, Capsule radius length_link_A),
          (''link_B1'', j1, Capsule radius length_link_B),
          (''link_A2'', j2, Capsule radius length_link_A),
          (''link_B2'', j3, Capsule radius length_link_B)]
     \<and> constraint_model L j3 =
         \<lparr>cm_type = CONTACT_3D, cm_joint1_id = j3,
          cm_joint1_placement =
            \<lparr>rotation = Identity3, translation = [Fin (5404319552844595 / 2 ^ 53), Fin 0, Fin 0]\<rparr>,
          cm_joint2_id = 0,
          cm_joint2_placement =
            \<lparr>rotation = Identity3, translation = [Fin (- 1 / 2), Fin 0, Fin 0]\<rparr>,
          cm_reference_frame = default_reference_frame L\<rparr>"
proof -
  obtain e tr where r: "script L = Some (e, tr)" using script_returns[of L] by auto
  obtain j1 j2 j3 where j: "fst (build_model L []) = (j1, j2, j3)"
    by (cases "fst (build_model L [])")
  have c: "filter is_construction (calls tr) =
         [AddGeometryObject geom_obj0,
          AddJoint 0 JointModelRY joint1_placement ''link_B1'',
          AddGeometryObject (geom_obj1 j1),
          AddJoint j1 JointModelRY joint2_placement ''link_A2'',
          AddGeometryObject (geom_obj2 j2),
          AddJoint j2 JointModelRY joint3_placement ''link_B2'',
          AddGeometryObject (geom_obj3 j3),
          RigidContactModel_init (constraint_model L j3)]"
    using script_construction[OF r j] by (simp add: base_joint_id_def)
  show ?thesis
    by (intro exI[of _ e] exI[of _ tr] exI[of _ j1] exI[of _ j2] exI[of _ j3] conjI)
       (fact r, fact j, fact c, fact geometry_objects_val, fact constraint_model_val)
qed

section \<open>The phases of the script\<close>

lemma map_const_replicate:
  assumes "\<forall>x\<in>set xs. f x = c"
  shows "map f xs = replicate (length xs) c"
  using assms by (induction xs) simp_all

lemma ik_entry_phase: "ik_entry x \<Longrightarrow> phase_of_line (fst x) = 3"
  by (cases x; cases "snd x") (simp_all add: phase_of_line_def)

lemma sim_entry_phase: "sim_entry x \<Longrightarrow> phase_of_line (fst x) = 4"
  by (cases x; cases "snd x") (simp_all add: phase_of_line_def)

lemma ik_entry_line: "ik_entry x \<Longrightarrow> fst x \<in> {114, 115, 118, 122, 124, 127, 132}"
  by (cases x; cases "snd x") simp_all

lemma sim_entry_line: "sim_entry x \<Longrightarrow> fst x \<in> {153, 155, 156, 157}"
  by (cases x; cases "snd x") simp_all

lemma count_line_sim:
  assumes "list_all sim_entry xs" and "l \<notin> {153, 155, 156, 157}"
  shows "count_line l xs = 0"
  using assms sim_entry_line by (auto simp: count_line_def filter_empty_conv list_all_iff)

lemma phases_ik:
  assumes "list_all ik_entry xs"
  shows "map (phase_of_line \<circ> fst) xs = replicate (length xs) 3"
  using assms ik_entry_phase by (intro map_const_replicate) (auto simp: list_all_iff)

lemma phases_sim:
  assumes "list_all sim_entry xs"
  shows "map (phase_of_line \<circ> fst) xs = replicate (length xs) 4"
  using assms sim_entry_phase by (intro map_const_replicate) (auto simp: list_all_iff)

lemma script_phases:
  assumes "script L = Some (e, tr)"
  shows "\<exists>n3 n4. map (phase_of_line \<circ> fst) tr =
           replicate 12 1 @ replicate 8 2 @ replicate n3 3 @ replicate n4 4
         \<and> (e = None \<longrightarrow> 0 < n4)"
    and "count_line 115 tr = count_line 114 tr"
    and "count_line 114 tr \<le> 100"
    and "count_line 122 tr \<le> 1"
    and "e = None \<longrightarrow> count_line 127 tr + count_line 122 tr = count_line 114 tr"
    and "e = None \<longrightarrow> count_line 122 tr = 0 \<longrightarrow> count_line 114 tr = 100"
proof -
  from script_log[OF assms] obtain j1 j2 j3 w q0 M ik rest where
    h: "tr = build_log j1 j2 j3 @ viewer_log w q0 @ ik_setup_log (constraint_model L j3) q0 M @ ik @ rest"
    "list_all ik_entry ik" "count_line 114 ik \<le> N" "count_line 115 ik = count_line 114 ik"
    "count_line 122 ik \<le> 1"
    "e = None \<longrightarrow> count_line 127 ik + count_line 122 ik = count_line 114 ik"
    "e = None \<longrightarrow> count_line 122 ik = 0 \<longrightarrow> count_line 114 ik = N"
    "rest = [] \<or> (\<exists>q kd sim. rest = sim_setup_log q kd @ sim \<and> list_all sim_entry sim)"
    "e = None \<longrightarrow> rest \<noteq> []"
    by metis
  have rest: "map (phase_of_line \<circ> fst) rest = replicate (length rest) 4
      \<and> count_line 114 rest = 0 \<and> count_line 115 rest = 0 \<and> count_line 122 rest = 0
      \<and> count_line 127 rest = 0"
  proof -
    from h(8) consider "rest = []"
      | q kd sim where "rest = sim_setup_log q kd @ sim" "list_all sim_entry sim" by blast
    then show ?thesis
    proof cases
      case 1 then show ?thesis by simp
    next
      case 2
      have "map (phase_of_line \<circ> fst) (sim_setup_log q kd) = replicate 4 4"
        by (simp add: sim_setup_log_def phase_of_line_def numeral_eq_Suc)
      then have "map (phase_of_line \<circ> fst) rest = replicate 4 4 @ replicate (length sim) 4"
        using phases_sim[OF 2(2)] by (simp add: 2(1))
      also have "\<dots> = replicate (length rest) 4"
      proof -
        have "length rest = 4 + length sim" by (simp add: 2(1) sim_setup_log_def)
        then show ?thesis by (simp only: replicate_add)
      qed
      finally have "map (phase_of_line \<circ> fst) rest = replicate (length rest) 4" .
      moreover have "count_line 114 sim = 0" "count_line 115 sim = 0" "count_line 122 sim = 0"
        "count_line 127 sim = 0"
        using count_line_sim[OF 2(2)] by simp_all
      ultimately show ?thesis by (simp add: 2(1) sim_setup_log_def)
    qed
  qed
  have pre: "map (phase_of_line \<circ> fst) (build_log j1 j2 j3) = replicate 12 1"
    "map (phase_of_line \<circ> fst) (viewer_log w q0) = replicate 8 2"
    "map (phase_of_line \<circ> fst) (ik_setup_log (constraint_model L j3) q0 M) = replicate 7 3"
    by (simp_all add: build_log_def viewer_log_def ik_setup_log_def phase_of_line_def numeral_eq_Suc)
  have "map (phase_of_line \<circ> fst) tr =
      replicate 12 1 @ replicate 8 2 @ replicate 7 3 @ replicate (length ik) 3
      @ replicate (length rest) 4"
    using pre phases_ik[OF h(2)] rest by (simp add: h(1))
  then have p: "map (phase_of_line \<circ> fst) tr =
      replicate 12 1 @ replicate 8 2 @ replicate (7 + length ik) 3 @ replicate (length rest) 4"
    by (simp add: replicate_add)
  have n4: "e = None \<longrightarrow> 0 < length rest" using h(9) by simp
  show "\<exists>n3 n4. map (phase_of_line \<circ> fst) tr =
           replicate 12 1 @ replicate 8 2 @ replicate n3 3 @ replicate n4 4
         \<and> (e = None \<longrightarrow> 0 < n4)"
    by (intro exI[of _ "7 + length ik"] exI[of _ "length rest"] conjI) (fact p, fact n4)
  have c: "count_line 114 tr = count_line 114 ik" "count_line 115 tr = count_line 115 ik"
    "count_line 122 tr = count_line 122 ik" "count_line 127 tr = count_line 127 ik"
    using rest by (simp_all add: h(1) build_log_def viewer_log_def ik_setup_log_def)
  show "count_line 115 tr = count_line 114 tr" using h(4) c by simp
  show "count_line 114 tr \<le> 100" using h(3) c by (simp add: N_def)
  show "count_line 122 tr \<le> 1" using h(5) c by simp
  show "e = None \<longrightarrow> count_line 127 tr + count_line 122 tr = count_line 114 tr" using h(6) c by simp
  show "e = None \<longrightarrow> count_line 122 tr = 0 \<longrightarrow> count_line 114 tr = 100"
    using h(7) c by (simp add: N_def)
qed

lemma stuck_lib_sel:
  "model_nv stuck_lib h = length (filter is_AddJoint h)"
  "getFrameJacobian_ret stuck_lib h = replicate 6 (np_zeros (length (filter is_AddJoint h)))"
  "solve_ret stuck_lib h = (case last h of Kkt_solve rhs \<Rightarrow> np_zeros (length rhs) | _ \<Rightarrow> [])"
  "np_dot stuck_lib = toy_dot"
  "c1Mc2_translation stuck_lib h = [Fin 1, Fin 0, Fin 0]"
  by (simp_all add: stuck_lib_def toy_lib_def)

lemma list3:
  assumes "length xs = 3"
  obtains x0 x1 x2 where "xs = [x0, x1, x2]"
  using assms by (auto simp: numeral_3_eq_3 length_Suc_conv)

lemma violated_pass:
  assumes d: "np_dot L = toy_dot"
    and nv: "\<And>h. model_nv L h = length (filter is_AddJoint h)"
    and J: "\<And>h. getFrameJacobian_ret L h = replicate 6 (np_zeros (length (filter is_AddJoint h)))"
    and sv: "\<And>h. solve_ret L h = (case last h of Kkt_solve rhs \<Rightarrow> np_zeros (length rhs) | _ \<Rightarrow> [])"
    and cv: "ik_constraint_value L s = [Fin 1, Fin 0, Fin 0]"
    and y: "length (ik_y s) = 3"
    and a: "length (filter is_AddJoint (calls (ik_log s))) = 3"
  shows "\<exists>s'. ik_body L cm 3 s = (Continue, s') \<and> length (ik_y s') = 3
     \<and> length (filter is_AddJoint (calls (ik_log s'))) = 3
     \<and> list_ex is_Kkt_solve (calls (ik_log s'))
     \<and> (ik_y s = np_ones 3 \<longrightarrow> ik_y s' = np_zeros 3)"
proof -
  obtain y0 y1 y2 where ys: "ik_y s = [y0, y1, y2]" using list3[OF y] .
  have Jv: "ik_J L cm s = [[Fin 0, Fin 0, Fin 0], [Fin 0, Fin 0, Fin 0], [Fin 0, Fin 0, Fin 0]]"
    using a by (simp add: ik_J_def ik_measured_def J calls_def np_zeros_3 replicate_3)
  have p: "primal_feas (ik_constraint_value L s) = Inr (Fin 1)"
    by (simp add: cv primal_feas_def np_norm_inf_def np_maximum_def)
  obtain dd where dl: "dual_feas L (ik_J L cm s) (ik_constraint_value L s) (ik_y s) = Inr dd"
    by (simp add: cv Jv ys dual_feas_def np_binop_def ebind_def d toy_dot_def np_norm_inf_def)
  have c: "\<not> (flt (Fin 1) eps \<and> flt dd eps)" by (simp add: eps_val)
  have b: "ik_body L cm 3 s =
      ik_step L 3 (ik_constraint_value L s) (s\<lparr>ik_log := ik_measured cm s\<rparr>)"
    using ik_body_step[OF p dl c] .
  obtain r s' where st: "ik_step L 3 (ik_constraint_value L s) (s\<lparr>ik_log := ik_measured cm s\<rparr>) = (r, s')"
    by (cases "ik_step L 3 (ik_constraint_value L s) (s\<lparr>ik_log := ik_measured cm s\<rparr>)")
  have am: "length (filter is_AddJoint (calls (ik_measured cm s))) = 3"
    using a by (simp add: ik_measured_def calls_def)
  have ev: "r = Continue \<and> length (ik_y s') = 3
     \<and> length (filter is_AddJoint (calls (ik_log s'))) = 3
     \<and> list_ex is_Kkt_solve (calls (ik_log s'))
     \<and> (ik_y s = np_ones 3 \<longrightarrow> ik_y s' = np_zeros 3)"
    using st am
    by (auto simp: ik_step_def Let_def cv ys np_binop_def np_neg_def np_mul_scalar_def nv sv
        emit_def calls_def np_zeros_3 np_ones_3 dual_update_def ebind_def np_inplace_def
        np_scalar_mul_def alpha_def fsub_def replicate_3 np_zeros_def)
  show ?thesis using b st ev by (intro exI[of _ s']) simp
qed

lemma stuck_lib_sel2:
  "addJoint_ret stuck_lib h = length (filter is_AddJoint h)"
  "getWindowID_ret stuck_lib h = 0"
  "neutral_ret stuck_lib h = np_zeros (length (filter is_AddJoint h))"
  "size_ret stuck_lib h = 3"
  "default_reference_frame stuck_lib = LOCAL"
  by (simp_all add: stuck_lib_def toy_lib_def)

lemma stuck_preamble:
  "preamble stuck_lib = (constraint_model stuck_lib 3, 3, stuck_start)"
  "ik_y stuck_start = np_ones 3"
  "length (filter is_AddJoint (calls (ik_log stuck_start))) = 3"
  by (simp_all add: stuck_start_def preamble_def build_model_def setup_visualizer_def ik_setup_def
      Let_def emit_def calls_def stuck_lib_sel stuck_lib_sel2 numeral_3_eq_3)

lemma toy_preamble:
  "preamble toy_lib = (constraint_model toy_lib 3, 3, toy_start)"
  "ik_y toy_start = np_ones 3"
  "length (filter is_AddJoint (calls (ik_log toy_start))) = 3"
  "\<not> list_ex is_Kkt_solve (calls (ik_log toy_start))"
  by (simp_all add: toy_start_def preamble_def build_model_def setup_visualizer_def ik_setup_def
      Let_def emit_def calls_def toy_lib_sel numeral_3_eq_3)

lemma stuck_loop:
  assumes "length (ik_y s) = 3" and "length (filter is_AddJoint (calls (ik_log s))) = 3"
  shows "\<exists>s'. ik_loop stuck_lib cm 3 n s = (None, s')
     \<and> count_line 122 (ik_log s') = count_line 122 (ik_log s)"
  using assms
proof (induction n arbitrary: s)
  case 0
  then show ?case by simp
next
  case (Suc n)
  have cv: "ik_constraint_value stuck_lib s = [Fin 1, Fin 0, Fin 0]"
    by (simp add: ik_constraint_value_def stuck_lib_sel)
  from violated_pass[OF stuck_lib_sel(4) stuck_lib_sel(1) stuck_lib_sel(2) stuck_lib_sel(3) cv
      Suc.prems(1) Suc.prems(2), of cm]
  obtain s1 where s1: "ik_body stuck_lib cm 3 s = (Continue, s1)" "length (ik_y s1) = 3"
    "length (filter is_AddJoint (calls (ik_log s1))) = 3" by blast
  from ik_body_log[OF s1(1)] obtain ext where "ik_log s1 = ik_log s @ ext \<and> list_all ik_entry ext
     \<and> count_line 114 ext = 1 \<and> count_line 115 ext = 1
     \<and> count_line 122 ext = (if Continue = Break then 1 else 0)
     \<and> count_line 127 ext \<le> 1
     \<and> (Continue = Continue \<longrightarrow> count_line 127 ext = 1)
     \<and> (Continue = Break \<longrightarrow> count_line 127 ext = 0)" ..
  then have c: "count_line 122 (ik_log s1) = count_line 122 (ik_log s)" by simp
  from Suc.IH[OF s1(2) s1(3)] obtain s' where
    s': "ik_loop stuck_lib cm 3 n s1 = (None, s')"
    "count_line 122 (ik_log s') = count_line 122 (ik_log s1)" by blast
  have "ik_loop stuck_lib cm 3 (Suc n) s = (None, s')" using s1(1) s'(1) by simp
  then show ?case using s'(2) c by simp
qed

lemma met_pass:
  assumes d: "np_dot L = toy_dot"
    and J: "\<And>h. getFrameJacobian_ret L h = replicate 6 (np_zeros (length (filter is_AddJoint h)))"
    and cv: "ik_constraint_value L s = np_zeros 3"
    and y: "ik_y s = np_zeros 3"
    and a: "length (filter is_AddJoint (calls (ik_log s))) = 3"
  shows "ik_body L cm cd s =
    (Break, s\<lparr>ik_log := ik_measured cm s @ [(122, Print ''Convergence achieved'')]\<rparr>)"
proof -
  have Jv: "ik_J L cm s = [[Fin 0, Fin 0, Fin 0], [Fin 0, Fin 0, Fin 0], [Fin 0, Fin 0, Fin 0]]"
    using a by (simp add: ik_J_def ik_measured_def J calls_def np_zeros_3 replicate_3)
  have p: "primal_feas (ik_constraint_value L s) = Inr (Fin 0)"
    by (simp add: cv np_zeros_3 primal_feas_def np_norm_inf_def np_maximum_def)
  have dl: "dual_feas L (ik_J L cm s) (ik_constraint_value L s) (ik_y s) = Inr (Fin 0)"
    by (simp add: cv Jv y np_zeros_3 dual_feas_def np_binop_def ebind_def d toy_dot_def
        np_norm_inf_def np_maximum_def)
  have c: "flt (Fin 0) eps \<and> flt (Fin 0) eps" by (simp add: eps_val)
  show ?thesis using ik_body_break[OF p dl c] .
qed

lemma ik_loop_pos:
  assumes "0 < n"
  shows "ik_loop L cm cd n s =
     (case ik_body L cm cd s of
        (Raised e, s') \<Rightarrow> (Some e, s')
      | (Break, s') \<Rightarrow> (None, s')
      | (Continue, s') \<Rightarrow> ik_loop L cm cd (n - 1) s')"
proof -
  obtain m where m: "n = Suc m" using assms by (cases n) simp_all
  show ?thesis unfolding m by (simp split: prod.splits outcome.splits)
qed

lemma toy_ik_run:
  "\<exists>s2 ext. ik_loop toy_lib (constraint_model toy_lib 3) 3 N toy_start = (None, s2)
     \<and> ik_log s2 = ik_log toy_start @ ext
     \<and> count_line 114 ext = 2 \<and> count_line 127 ext = 1 \<and> count_line 122 ext = 1"
proof -
  let ?cm = "constraint_model toy_lib 3"
  have cv: "ik_constraint_value toy_lib toy_start = [Fin 1, Fin 0, Fin 0]"
    using toy_preamble(4) by (simp add: ik_constraint_value_def toy_lib_sel)
  have y3: "length (ik_y toy_start) = 3" by (simp add: toy_preamble np_ones_3)
  from violated_pass[OF toy_lib_sel(12) toy_lib_sel(2) toy_lib_sel(8) toy_lib_sel(9) cv y3
      toy_preamble(3), of ?cm]
  obtain s1 where s1: "ik_body toy_lib ?cm 3 toy_start = (Continue, s1)"
    "length (filter is_AddJoint (calls (ik_log s1))) = 3"
    "list_ex is_Kkt_solve (calls (ik_log s1))"
    "ik_y s1 = np_zeros 3"
    using toy_preamble(2) by blast
  from ik_body_log[OF s1(1)] obtain x1 where "ik_log s1 = ik_log toy_start @ x1 \<and> list_all ik_entry x1
     \<and> count_line 114 x1 = 1 \<and> count_line 115 x1 = 1
     \<and> count_line 122 x1 = (if Continue = Break then 1 else 0)
     \<and> count_line 127 x1 \<le> 1
     \<and> (Continue = Continue \<longrightarrow> count_line 127 x1 = 1)
     \<and> (Continue = Break \<longrightarrow> count_line 127 x1 = 0)" ..
  then have x1: "ik_log s1 = ik_log toy_start @ x1" "count_line 114 x1 = 1"
    "count_line 122 x1 = 0" "count_line 127 x1 = 1" by simp_all
  have cv1: "ik_constraint_value toy_lib s1 = np_zeros 3"
    using s1(3) by (simp add: ik_constraint_value_def toy_lib_sel)
  define s2 where "s2 = s1\<lparr>ik_log := ik_measured ?cm s1 @ [(122, Print ''Convergence achieved'')]\<rparr>"
  have b2: "ik_body toy_lib ?cm 3 s1 = (Break, s2)"
    unfolding s2_def using met_pass[OF toy_lib_sel(12) toy_lib_sel(8) cv1 s1(4) s1(2)] .
  define ext where "ext = x1 @ [(114, ComputeJointJacobians (ik_q s1)), (115, Kkt_compute mu),
      (118, GetFrameJacobian (cm_joint1_id ?cm) (cm_joint1_placement ?cm) (cm_reference_frame ?cm)),
      (122, Print ''Convergence achieved'')]"
  have l2: "ik_log s2 = ik_log toy_start @ ext"
    by (simp add: s2_def ik_measured_def x1(1) ext_def)
  have "ik_loop toy_lib ?cm 3 N toy_start = ik_loop toy_lib ?cm 3 (N - 1) s1"
    using s1(1) by (subst ik_loop_pos) (simp_all add: N_def)
  also have "\<dots> = (None, s2)"
    using b2 by (subst ik_loop_pos) (simp_all add: N_def)
  finally have r: "ik_loop toy_lib ?cm 3 N toy_start = (None, s2)" .
  have c: "count_line 114 ext = 2" "count_line 127 ext = 1" "count_line 122 ext = 1"
    using x1(2,3,4) by (simp_all add: ext_def)
  show ?thesis
    by (intro exI[of _ s2] exI[of _ ext] conjI) (fact r, fact l2, fact c(1), fact c(2), fact c(3))
qed

lemma script_unfold:
  assumes "preamble L = (cm, cd, s0)" and "ik_loop L cm cd N s0 = (r, s1)"
  shows "script L = (case r of Some e \<Rightarrow> Some (Some e, ik_log s1)
     | None \<Rightarrow> map_option (\<lambda>(e, s'). (e, sim_log s')) (sim_loop L (sim_setup L s1)))"
  using assms by (simp add: script_def split: option.splits)

lemma script_ik_counts:
  assumes "script L = Some (e, tr)" and "preamble L = (cm, cd, s0)"
    and "ik_loop L cm cd N s0 = (r, s1)" and "ik_log s1 = ik_log s0 @ ext"
    and "l \<in> {114, 122, 127}"
  shows "count_line l tr = count_line l ext"
proof -
  from preamble_log[OF assms(2)] obtain j1 j2 j3 w M where
    "ik_log s0 = build_log j1 j2 j3 @ viewer_log w (ik_q s0) @ ik_setup_log cm (ik_q s0) M"
    by blast
  then have c0: "count_line l (ik_log s0) = 0"
    using assms(5) by (auto simp: build_log_def viewer_log_def ik_setup_log_def)
  have c1: "count_line l (ik_log s1) = count_line l ext" using c0 assms(4) by simp
  show ?thesis
  proof (cases r)
    case (Some err)
    then have "tr = ik_log s1" using script_unfold[OF assms(2,3)] assms(1) by simp
    then show ?thesis using c1 by simp
  next
    case None
    then have "map_option (\<lambda>(e, s'). (e, sim_log s')) (sim_loop L (sim_setup L s1)) = Some (e, tr)"
      using script_unfold[OF assms(2,3)] assms(1) by simp
    then obtain r2 where l: "sim_loop L (sim_setup L s1) = Some r2"
      and r2: "(e, tr) = (\<lambda>(e, s'). (e, sim_log s')) r2" by auto
    have tr: "tr = sim_log (snd r2)" using r2 by (cases r2) simp
    from sim_loop_log[OF l] obtain sim where
      sim: "sim_log (snd r2) = sim_log (sim_setup L s1) @ sim" "list_all sim_entry sim" by blast
    from sim_setup_log'[of L s1] obtain kd where
      kd: "sim_log (sim_setup L s1) = ik_log s1 @ sim_setup_log (ik_q s1) kd" ..
    have "count_line l sim = 0" using count_line_sim[OF sim(2)] assms(5) by auto
    moreover have "count_line l (sim_setup_log (ik_q s1) kd) = 0"
      using assms(5) by (auto simp: sim_setup_log_def)
    ultimately show ?thesis using tr sim(1) kd c1 by simp
  qed
qed

lemma sim_body_calm:
  assumes "\<And>h. contactDynamics_ret L h =
     (case last h of ContactDynamics q v tau m \<Rightarrow> np_zeros (length v) | _ \<Rightarrow> [])"
  shows "fst (sim_body L s) = None"
  by (simp add: sim_body_def Let_def assms emit_def calls_def np_inplace_def np_mul_scalar_def
      np_zeros_def)

lemma sim_iter_calm:
  assumes "\<And>h. contactDynamics_ret L h =
     (case last h of ContactDynamics q v tau m \<Rightarrow> np_zeros (length v) | _ \<Rightarrow> [])"
  shows "fst (sim_iter L n s) = None"
proof (induction n arbitrary: s)
  case 0
  then show ?case by simp
next
  case (Suc n)
  obtain e1 s1 where b: "sim_body L s = (e1, s1)" by (cases "sim_body L s")
  have "e1 = None" using sim_body_calm[OF assms, of s] b by simp
  then show ?case using b Suc.IH[of s1] by simp
qed

lemma script_calm:
  assumes "\<And>h. contactDynamics_ret L h =
     (case last h of ContactDynamics q v tau m \<Rightarrow> np_zeros (length v) | _ \<Rightarrow> [])"
    and "preamble L = (cm, cd, s0)" and "ik_loop L cm cd N s0 = (None, s1)"
  shows "\<exists>tr. script L = Some (None, tr)"
proof -
  from sim_loop_passes[OF sim_setup_t[of L s1], of L] obtain n where
    n: "sim_loop L (sim_setup L s1) = Some (sim_iter L n (sim_setup L s1))" by blast
  obtain e2 s2 where r: "sim_iter L n (sim_setup L s1) = (e2, s2)"
    by (cases "sim_iter L n (sim_setup L s1)")
  have "e2 = None" using sim_iter_calm[OF assms(1), of n "sim_setup L s1"] r by simp
  then have "script L = Some (None, sim_log s2)"
    using script_unfold[OF assms(2,3)] n r by simp
  then show ?thesis by blast
qed

lemma toy_calm:
  "contactDynamics_ret toy_lib h =
     (case last h of ContactDynamics q v tau m \<Rightarrow> np_zeros (length v) | _ \<Rightarrow> [])"
  "contactDynamics_ret stuck_lib h =
     (case last h of ContactDynamics q v tau m \<Rightarrow> np_zeros (length v) | _ \<Rightarrow> [])"
  by (simp_all add: toy_lib_def stuck_lib_def)

lemma toy_script:
  "\<exists>tr. script toy_lib = Some (None, tr) \<and> count_line 114 tr = 2 \<and> count_line 127 tr = 1"
proof -
  from toy_ik_run obtain s2 ext where
    i: "ik_loop toy_lib (constraint_model toy_lib 3) 3 N toy_start = (None, s2)"
    "ik_log s2 = ik_log toy_start @ ext" "count_line 114 ext = 2" "count_line 127 ext = 1"
    by blast
  from script_calm[OF toy_calm(1) toy_preamble(1) i(1)] obtain tr where
    tr: "script toy_lib = Some (None, tr)" by blast
  have "count_line 114 tr = count_line 114 ext" "count_line 127 tr = count_line 127 ext"
    using script_ik_counts[OF tr toy_preamble(1) i(1) i(2)] by simp_all
  then show ?thesis using tr i(3,4) by simp
qed

text \<open>
  Claim C6, as stated, fails in one point: not every pass of the inverse-kinematics loop
  solves the KKT system. The pass that finds the residuals below \<open>eps\<close> leaves the loop at
  line 123, after the factorisation of line 115 and before the solve of line 127. Against
  \<open>toy_lib\<close> the script returns after two passes (line 114 twice) and one solve (line 127
  once).
\<close>

theorem kkt_solve_counterexample:
  "script toy_lib \<noteq> None
   \<and> count_line 114 (snd (the (script toy_lib))) = 2
   \<and> count_line 127 (snd (the (script toy_lib))) = 1"
  using toy_script by auto

text \<open>
  Claim C6, amended. The script returns, and the lines of its library calls, in the order of
  the calls, are twelve of the construction (lines 34 to 67), eight of the viewer (lines 69 to
  86), then those of the inverse kinematics (lines 88 to 133), then those of the simulation
  (lines 136 to 158), of which there is at least one when no exception ended the run. Every
  pass of the inverse-kinematics loop factorises the KKT system (line 115 as often as line
  114); when no exception ended the run, every pass but the one that printed the convergence
  solved it (lines 127 and 122 together as often as line 114), and the convergence is printed
  at most once.
\<close>

theorem script_phases_in_sequence:
  "\<exists>e tr n3 n4. script L = Some (e, tr)
     \<and> map (phase_of_line \<circ> fst) tr =
         replicate 12 1 @ replicate 8 2 @ replicate n3 3 @ replicate n4 4
     \<and> (e = None \<longrightarrow> 0 < n4)
     \<and> count_line 115 tr = count_line 114 tr
     \<and> (e = None \<longrightarrow> count_line 127 tr + count_line 122 tr = count_line 114 tr)
     \<and> count_line 122 tr \<le> 1"
proof -
  obtain e tr where r: "script L = Some (e, tr)" using script_returns[of L] by auto
  from script_phases(1)[OF r] obtain n3 n4 where
    p: "map (phase_of_line \<circ> fst) tr =
         replicate 12 1 @ replicate 8 2 @ replicate n3 3 @ replicate n4 4"
    and n: "e = None \<longrightarrow> 0 < n4" by blast
  show ?thesis
    by (intro exI[of _ e] exI[of _ tr] exI[of _ n3] exI[of _ n4] conjI)
       (fact r, fact p, fact n, fact script_phases(2)[OF r], fact script_phases(5)[OF r],
        fact script_phases(4)[OF r])
qed

theorem script_phases_in_sequence_witness:
  "\<exists>tr n3 n4. script toy_lib = Some (None, tr)
     \<and> map (phase_of_line \<circ> fst) tr =
         replicate 12 1 @ replicate 8 2 @ replicate n3 3 @ replicate n4 4
     \<and> 0 < n4
     \<and> count_line 115 tr = 2 \<and> count_line 114 tr = 2 \<and> count_line 127 tr = 1
     \<and> count_line 122 tr = 1"
proof -
  from toy_script obtain tr0 where
    t: "script toy_lib = Some (None, tr0)" "count_line 114 tr0 = 2" "count_line 127 tr0 = 1"
    by blast
  from script_phases_in_sequence[of toy_lib] obtain e tr n3 n4 where
    h: "script toy_lib = Some (e, tr)"
     "map (phase_of_line \<circ> fst) tr =
         replicate 12 1 @ replicate 8 2 @ replicate n3 3 @ replicate n4 4"
     "e = None \<longrightarrow> 0 < n4"
     "count_line 115 tr = count_line 114 tr"
     "e = None \<longrightarrow> count_line 127 tr + count_line 122 tr = count_line 114 tr"
    by blast
  have e: "e = None" "tr = tr0" using h(1) t(1) by simp_all
  have 1: "0 < n4" using h(3) e by simp
  have 2: "count_line 115 tr0 = 2" using h(4) e t(2) by simp
  have 3: "count_line 122 tr0 = 1" using h(5) e t(2,3) by simp
  have 4: "map (phase_of_line \<circ> fst) tr0 =
         replicate 12 1 @ replicate 8 2 @ replicate n3 3 @ replicate n4 4"
    using h(2) e by simp
  show ?thesis
    by (intro exI[of _ tr0] exI[of _ n3] exI[of _ n4] conjI)
       (fact t(1), fact 4, fact 1, fact 2, fact t(2), fact t(3), fact 3)
qed

section \<open>The convergence test and the bound of the inverse-kinematics loop\<close>






lemma ik_loop_passes:
  "\<exists>e s' ext. ik_loop L cm cd N s = (e, s') \<and> ik_log s' = ik_log s @ ext
     \<and> count_line 114 ext \<le> 100 \<and> count_line 122 ext \<le> 1
     \<and> (e = None \<longrightarrow> count_line 122 ext = 0 \<longrightarrow> count_line 114 ext = 100)"
proof -
  obtain e s' where r: "ik_loop L cm cd N s = (e, s')" by (cases "ik_loop L cm cd N s")
  from ik_loop_log[OF r] obtain ext where "ik_log s' = ik_log s @ ext \<and> list_all ik_entry ext
     \<and> count_line 114 ext \<le> N \<and> count_line 115 ext = count_line 114 ext
     \<and> count_line 122 ext \<le> 1
     \<and> (e = None \<longrightarrow> count_line 127 ext + count_line 122 ext = count_line 114 ext)
     \<and> (e = None \<longrightarrow> count_line 122 ext = 0 \<longrightarrow> count_line 114 ext = N)" ..
  then have 1: "ik_log s' = ik_log s @ ext" and 2: "count_line 114 ext \<le> 100"
    and 3: "count_line 122 ext \<le> 1"
    and 4: "e = None \<longrightarrow> count_line 122 ext = 0 \<longrightarrow> count_line 114 ext = 100"
    by (simp_all add: N_def)
  show ?thesis
    by (intro exI[of _ e] exI[of _ s'] exI[of _ ext] conjI) (fact r, fact 1, fact 2, fact 3, fact 4)
qed

text \<open>
  Claim C2. The inverse-kinematics loop ends, for whatever the library returns, after at most
  \<open>N = 100\<close> passes (line 114 is called once per pass); the convergence is printed at most
  once; and when no exception ended the loop and the convergence was not printed, the passes
  are exactly 100.
\<close>

theorem ik_loop_bounded:
  "\<exists>e s' ext. ik_loop L cm cd N s = (e, s') \<and> ik_log s' = ik_log s @ ext
     \<and> count_line 114 ext \<le> 100 \<and> count_line 122 ext \<le> 1
     \<and> (e = None \<longrightarrow> count_line 122 ext = 0 \<longrightarrow> count_line 114 ext = 100)"
  by (rule ik_loop_passes)

lemma stuck_run:
  "\<exists>s'. ik_loop stuck_lib (constraint_model stuck_lib 3) 3 N stuck_start = (None, s')
     \<and> count_line 122 (ik_log s') = count_line 122 (ik_log stuck_start)"
proof -
  have y: "length (ik_y stuck_start) = 3" by (simp add: stuck_preamble(2) np_ones_3)
  show ?thesis using stuck_loop[OF y stuck_preamble(3)] .
qed

theorem ik_loop_bounded_witness:
  "\<exists>s' ext. ik_loop stuck_lib (constraint_model stuck_lib 3) 3 N stuck_start = (None, s')
     \<and> ik_log s' = ik_log stuck_start @ ext
     \<and> count_line 122 ext = 0 \<and> count_line 114 ext = 100"
proof -
  let ?cm = "constraint_model stuck_lib 3"
  from stuck_run obtain s1 where
    "ik_loop stuck_lib ?cm 3 N stuck_start = (None, s1)
      \<and> count_line 122 (ik_log s1) = count_line 122 (ik_log stuck_start)" ..
  then have s1: "ik_loop stuck_lib ?cm 3 N stuck_start = (None, s1)"
      "count_line 122 (ik_log s1) = count_line 122 (ik_log stuck_start)" by simp_all
  from ik_loop_bounded[of stuck_lib ?cm 3 stuck_start] obtain e where
    "\<exists>s' ext. ik_loop stuck_lib ?cm 3 N stuck_start = (e, s') \<and> ik_log s' = ik_log stuck_start @ ext
     \<and> count_line 114 ext \<le> 100 \<and> count_line 122 ext \<le> 1
     \<and> (e = None \<longrightarrow> count_line 122 ext = 0 \<longrightarrow> count_line 114 ext = 100)" ..
  then obtain s' where
    "\<exists>ext. ik_loop stuck_lib ?cm 3 N stuck_start = (e, s') \<and> ik_log s' = ik_log stuck_start @ ext
     \<and> count_line 114 ext \<le> 100 \<and> count_line 122 ext \<le> 1
     \<and> (e = None \<longrightarrow> count_line 122 ext = 0 \<longrightarrow> count_line 114 ext = 100)" ..
  then obtain ext where
    "ik_loop stuck_lib ?cm 3 N stuck_start = (e, s') \<and> ik_log s' = ik_log stuck_start @ ext
     \<and> count_line 114 ext \<le> 100 \<and> count_line 122 ext \<le> 1
     \<and> (e = None \<longrightarrow> count_line 122 ext = 0 \<longrightarrow> count_line 114 ext = 100)" ..
  then have b: "ik_loop stuck_lib ?cm 3 N stuck_start = (e, s')"
      "ik_log s' = ik_log stuck_start @ ext"
      "e = None \<longrightarrow> count_line 122 ext = 0 \<longrightarrow> count_line 114 ext = 100" by simp_all
  have e: "e = None" "s' = s1" using s1(1) b(1) by simp_all
  have l: "ik_log s1 = ik_log stuck_start @ ext" using b(2) e(2) by simp
  have c: "count_line 122 ext = 0" using s1(2) l by simp
  have d: "count_line 114 ext = 100" using b(3) e(1) c by simp
  show ?thesis
    by (intro exI[of _ s1] exI[of _ ext] conjI) (fact s1(1), fact l, fact c, fact d)
qed




end
